theory Spec2Isabelle
  imports Main "HOL-Library.Sublist"
begin

section \<open>Data model\<close>

text \<open>
  The module \<^verbatim>\<open>zun/cni/binding/base.py\<close> attaches a VIF to the network namespace of a
  container and configures addresses and routes there. Its own code is short; almost every
  statement is a call into a collaborator (stevedore, os_vif, the binding driver, pyroute2,
  the kernel through \<^verbatim>\<open>open\<close> and \<^verbatim>\<open>setns\<close>). The model therefore keeps a trace of
  the calls the module issues, in the order it issues them, and lets an environment decide
  which of them raise.
\<close>

type_synonym netns = "string option"
  \<comment> \<open>a namespace path as the callers pass it; \<open>None\<close> is Python's \<^verbatim>\<open>None\<close>\<close>

record cidr =
  version :: int
  prefixlen :: int

record route =
  route_gateway :: string
  route_cidr :: string

record subnet =
  cidr :: cidr
  ips :: "string list"             \<comment> \<open>the \<^verbatim>\<open>fip['address']\<close> of every entry of \<^verbatim>\<open>subnet['ips']\<close>\<close>
  routes :: "route list"
  gateway :: "string option"       \<comment> \<open>\<open>None\<close>: the key \<^verbatim>\<open>'gateway'\<close> is not in the dict\<close>

record vif_dict =
  subnets :: "subnet list"         \<comment> \<open>\<^verbatim>\<open>vif_dict['network']['subnets']\<close>\<close>

record vif =
  vif_type :: string               \<comment> \<open>\<^verbatim>\<open>type(vif).__name__\<close>\<close>
  physnet :: "string option"       \<comment> \<open>\<open>None\<close>: \<^verbatim>\<open>hasattr(vif, 'physnet')\<close> is false\<close>
  network :: "subnet list"

datatype error =
    NoMatches string string        \<comment> \<open>stevedore: no plugin of that name in that namespace\<close>
  | KeyError string
  | NetlinkError int               \<comment> \<open>\<^verbatim>\<open>pyroute2.NetlinkError\<close> with its \<^verbatim>\<open>code\<close>\<close>
  | OSError int
  | UnboundLocalError string
  | OtherError string

datatype loglevel = Debug | Info | Exception

datatype ns_ref =
    NsPath netns                   \<comment> \<open>\<^verbatim>\<open>setns\<close> given a namespace path\<close>
  | NsFd string                    \<comment> \<open>\<^verbatim>\<open>setns\<close> given an open file on a namespace\<close>

datatype route_dst =
    Default                        \<comment> \<open>the literal \<^verbatim>\<open>dst='default'\<close>\<close>
  | Dst string                     \<comment> \<open>\<^verbatim>\<open>dst=str(route['cidr'])\<close>\<close>

datatype event =
    ConvertNetns netns
  | DriverManager string string
  | Plug vif string
  | Unplug vif string
  | DriverConnect string vif string netns "string option"
  | DriverDisconnect string vif string netns "string option"
  | EnterNeedConfigureL3 vif
  | OsvifVifToDict vif
  | EnterConfigureL3 vif_dict string netns bool
  | NetNS string
  | IPDB netns
  | IpdbRelease
  | Interface string
  | AddIp string int int
  | IfaceCommit string
  | RoutesAdd string route_dst
  | EnterEnableIpv6 netns
  | OpenFile netns string
  | SetNs ns_ref
  | WriteFile netns string
  | Log loglevel string "string list"

text \<open>
  \<open>AddIp a p v\<close> is the call \<^verbatim>\<open>iface.add_ip('%s/%s' % (a, p))\<close>; the third field is the
  \<^verbatim>\<open>subnet['cidr']['version']\<close> of the subnet the address came from. It is not an argument
  of the call and is kept only so that a trace tells IPv6 assignments from IPv4 ones.
  The events \<open>Enter...\<close> mark the entry into a function of the module itself.
\<close>

record world =
  active_ns :: string              \<comment> \<open>the network namespace the process is in\<close>
  trace :: "event list"            \<comment> \<open>the calls issued so far, oldest first\<close>

type_synonym env = "event list \<Rightarrow> event \<Rightarrow> error option"
  \<comment> \<open>given the calls so far and the call attempted now: the exception it raises, if any\<close>

record conf =
  sriov_physnet_resource_mappings :: "string \<rightharpoonup> string"
  sriov_resource_driver_mappings :: "string \<rightharpoonup> string"
  USERSPACE_DRIVERS :: "string list"
  plugins :: "string list"
  convert_netns :: "netns \<Rightarrow> error + netns"
  osvif_vif_to_dict :: "vif \<Rightarrow> error + vif_dict"

text \<open>
  \<open>conf\<close> collects what the module reads and does not define: the two option tables of
  \<^verbatim>\<open>CONF\<close>, the constant \<^verbatim>\<open>consts.USERSPACE_DRIVERS\<close>, the names registered under the
  stevedore namespace \<^verbatim>\<open>zun.cni.binding\<close>, and the helpers \<^verbatim>\<open>utils.convert_netns\<close> and
  \<^verbatim>\<open>utils.osvif_vif_to_dict\<close>, taken as parameters.
\<close>

type_synonym 'a prog = "world \<Rightarrow> (error + 'a) \<times> world"

definition BINDING_NAMESPACE :: string where
  "BINDING_NAMESPACE = ''zun.cni.binding''"

definition EEXIST :: int where
  "EEXIST = 17"

section \<open>Sequencing, exceptions and calls\<close>

definition return :: "'a \<Rightarrow> 'a prog" where
  "return x = (\<lambda>w. (Inr x, w))"

definition raise :: "error \<Rightarrow> 'a prog" where
  "raise e = (\<lambda>w. (Inl e, w))"

definition bind :: "'a prog \<Rightarrow> ('a \<Rightarrow> 'b prog) \<Rightarrow> 'b prog" where
  "bind m f = (\<lambda>w. case m w of (Inl e, w') \<Rightarrow> (Inl e, w') | (Inr x, w') \<Rightarrow> f x w')"

definition try_finally :: "'a prog \<Rightarrow> unit prog \<Rightarrow> 'a prog" where
  \<comment> \<open>\<^verbatim>\<open>try: m finally: h\<close>: \<open>h\<close> runs on every path; an exception of \<open>h\<close> replaces the outcome of \<open>m\<close>\<close>
  "try_finally m h = (\<lambda>w. case m w of (r, w') \<Rightarrow>
     (case h w' of (Inl e, w'') \<Rightarrow> (Inl e, w'') | (Inr _, w'') \<Rightarrow> (r, w'')))"

definition emit :: "event \<Rightarrow> world \<Rightarrow> world" where
  "emit ev w = w\<lparr>trace := trace w @ [ev]\<rparr>"

definition mark :: "event \<Rightarrow> unit prog" where
  \<comment> \<open>an event that cannot raise\<close>
  "mark ev = (\<lambda>w. (Inr (), emit ev w))"

definition call :: "env \<Rightarrow> event \<Rightarrow> unit prog" where
  \<comment> \<open>a call into a collaborator: recorded, and raising when the environment says so\<close>
  "call env ev = (\<lambda>w. case env (trace w) ev of
       None \<Rightarrow> (Inr (), emit ev w)
     | Some e \<Rightarrow> (Inl e, emit ev w))"

section \<open>The module\<close>

text \<open>
  One definition per function of the module, in the module's order, plus one for each loop
  and each loop body. Every argument is explicit: the defaults of the Python signatures
  (\<^verbatim>\<open>netns=None\<close>, \<^verbatim>\<open>is_default_gateway=True\<close>, \<^verbatim>\<open>container_id=None\<close>) are values a caller
  passes, and the \<^verbatim>\<open>**kwargs\<close> of \<^verbatim>\<open>disconnect\<close> are never read. The decorator
  \<^verbatim>\<open>@privileged.cni.entrypoint\<close> runs \<^verbatim>\<open>_configure_l3\<close> in the privileged worker with the same
  arguments and the same outcome, so it leaves no mark in the model. Log calls and the
  release of the IPDB handle at the end of its \<^verbatim>\<open>with\<close> block are recorded and never raise;
  every other call into a collaborator raises when the environment says so. When no plugin
  is registered under the VIF's type name, stevedore's \<^verbatim>\<open>DriverManager\<close> raises \<^verbatim>\<open>NoMatches\<close>,
  whose message names the namespace and the name looked for.
\<close>

definition get_binding_driver :: "conf \<Rightarrow> env \<Rightarrow> vif \<Rightarrow> string prog" where
  \<comment> \<open>the driver is identified by the name it was registered under\<close>
  "get_binding_driver cf env v =
     (if vif_type v \<notin> set (plugins cf)
      then bind (mark (DriverManager BINDING_NAMESPACE (vif_type v)))
             (\<lambda>_. raise (NoMatches BINDING_NAMESPACE (vif_type v)))
      else bind (call env (DriverManager BINDING_NAMESPACE (vif_type v)))
             (\<lambda>_. return (vif_type v)))"

definition get_ipdb :: "env \<Rightarrow> netns \<Rightarrow> unit prog" where
  "get_ipdb env ns =
     (case ns of
        None \<Rightarrow> call env (IPDB None)
      | Some p \<Rightarrow> if p = [] then call env (IPDB None)
                  else bind (call env (NetNS p)) (\<lambda>_. call env (IPDB (Some p))))"

definition setns :: "env \<Rightarrow> ns_ref \<Rightarrow> unit prog" where
  \<comment> \<open>\<^verbatim>\<open>pyroute_netns.setns\<close>: on success the process is in the namespace referred to;
      \<^verbatim>\<open>None\<close> names no namespace and switches nothing\<close>
  "setns env r = bind (call env (SetNs r)) (\<lambda>_ w.
     (Inr (), case r of
        NsPath None \<Rightarrow> w
      | NsPath (Some p) \<Rightarrow> w\<lparr>active_ns := p\<rparr>
      | NsFd n \<Rightarrow> w\<lparr>active_ns := n\<rparr>))"

definition convert :: "conf \<Rightarrow> netns \<Rightarrow> netns prog" where
  \<comment> \<open>the call \<^verbatim>\<open>utils.convert_netns(ns)\<close>\<close>
  "convert cf ns = (\<lambda>w. (convert_netns cf ns, emit (ConvertNetns ns) w))"

definition open_self_ns :: "env \<Rightarrow> netns \<Rightarrow> ns_ref prog" where
  \<comment> \<open>\<^verbatim>\<open>open(path)\<close> on the process's own namespace file: the handle refers to the
      namespace the process is in at that moment\<close>
  "open_self_ns env path =
     bind (call env (OpenFile path ''r'')) (\<lambda>_ w. (Inr (NsFd (active_ns w)), w))"

definition disable_flag :: "conf \<Rightarrow> env \<Rightarrow> netns \<Rightarrow> unit prog" where
  \<comment> \<open>the statements of the \<^verbatim>\<open>try\<close> block after \<^verbatim>\<open>self_ns_fd\<close> is bound\<close>
  "disable_flag cf env ns =
     bind (setns env (NsPath ns)) (\<lambda>_.
     bind (convert cf (Some ''/proc/sys/net/ipv6/conf/all/disable_ipv6'')) (\<lambda>path.
     bind (call env (OpenFile path ''w'')) (\<lambda>_.
     call env (WriteFile path ''0''))))"

definition enable_ipv6 :: "conf \<Rightarrow> env \<Rightarrow> netns \<Rightarrow> unit prog" where
  "enable_ipv6 cf env ns = (\<lambda>w0.
     let w = emit (EnterEnableIpv6 ns) w0 in
     case convert cf (Some ''/proc/self/ns/net'') w of
       (Inl e, w1) \<Rightarrow> (Inl (UnboundLocalError ''self_ns_fd''), w1)
     | (Inr path, w1) \<Rightarrow>
         (case open_self_ns env path w1 of
            (Inl e, w2) \<Rightarrow> (Inl (UnboundLocalError ''self_ns_fd''), w2)
          | (Inr self_ns_fd, w2) \<Rightarrow>
              try_finally (disable_flag cf env ns) (setns env self_ns_fd) w2))"

text \<open>
  When \<^verbatim>\<open>convert_netns\<close> or the first \<^verbatim>\<open>open\<close> raises, \<^verbatim>\<open>self_ns_fd\<close> is unbound when
  the \<^verbatim>\<open>finally\<close> clause reads it, and the \<^verbatim>\<open>UnboundLocalError\<close> of that read replaces
  the exception in flight.
\<close>

fun add_ips :: "env \<Rightarrow> int \<Rightarrow> int \<Rightarrow> string list \<Rightarrow> unit prog" where
  "add_ips env p v [] = return ()"
| "add_ips env p v (a # as) = bind (call env (AddIp a p v)) (\<lambda>_. add_ips env p v as)"

definition subnet_addresses :: "conf \<Rightarrow> env \<Rightarrow> netns \<Rightarrow> subnet \<Rightarrow> unit prog" where
  \<comment> \<open>the body of the first loop, for one subnet\<close>
  "subnet_addresses cf env ns s =
     bind (if version (cidr s) = 6 then enable_ipv6 cf env ns else return ()) (\<lambda>_.
       add_ips env (prefixlen (cidr s)) (version (cidr s)) (ips s))"

fun address_pass :: "conf \<Rightarrow> env \<Rightarrow> netns \<Rightarrow> subnet list \<Rightarrow> unit prog" where
  "address_pass cf env ns [] = return ()"
| "address_pass cf env ns (s # ss) =
     bind (subnet_addresses cf env ns s) (\<lambda>_. address_pass cf env ns ss)"

fun add_routes :: "env \<Rightarrow> route list \<Rightarrow> unit prog" where
  "add_routes env [] = return ()"
| "add_routes env (r # rs) =
     bind (call env (RoutesAdd (route_gateway r) (Dst (route_cidr r)))) (\<lambda>_. add_routes env rs)"

definition add_default_route :: "env \<Rightarrow> string \<Rightarrow> unit prog" where
  "add_default_route env gw = (\<lambda>w.
     case call env (RoutesAdd gw Default) w of
       (Inr u, w') \<Rightarrow> (Inr (), w')
     | (Inl (NetlinkError code), w') \<Rightarrow>
         if code \<noteq> EEXIST then (Inl (NetlinkError code), w')
         else mark (Log Debug ''Default route already exists in capsule/container for vif=%s. Did not overwrite with requested gateway=%s'' [gw]) w'
     | (Inl e, w') \<Rightarrow> (Inl e, w'))"

definition subnet_routes :: "env \<Rightarrow> bool \<Rightarrow> subnet \<Rightarrow> unit prog" where
  \<comment> \<open>the body of the second loop, for one subnet\<close>
  "subnet_routes env is_default_gateway s =
     bind (add_routes env (routes s)) (\<lambda>_.
       case gateway s of
         Some gw \<Rightarrow> if is_default_gateway then add_default_route env gw else return ()
       | None \<Rightarrow> return ())"

fun route_pass :: "env \<Rightarrow> bool \<Rightarrow> subnet list \<Rightarrow> unit prog" where
  "route_pass env g [] = return ()"
| "route_pass env g (s # ss) = bind (subnet_routes env g s) (\<lambda>_. route_pass env g ss)"

definition iface_block :: "conf \<Rightarrow> env \<Rightarrow> string \<Rightarrow> netns \<Rightarrow> subnet list \<Rightarrow> unit prog" where
  \<comment> \<open>\<^verbatim>\<open>with ipdb.interfaces[ifname] as iface\<close>: the transaction is committed when the
      block is left without an exception, and dropped otherwise\<close>
  "iface_block cf env ifname ns ss =
     bind (call env (Interface ifname)) (\<lambda>_.
     bind (address_pass cf env ns ss) (\<lambda>_.
     call env (IfaceCommit ifname)))"

definition configure_l3 :: "conf \<Rightarrow> env \<Rightarrow> vif_dict \<Rightarrow> string \<Rightarrow> netns \<Rightarrow> bool \<Rightarrow> unit prog" where
  "configure_l3 cf env vd ifname ns is_default_gateway =
     bind (mark (EnterConfigureL3 vd ifname ns is_default_gateway)) (\<lambda>_.
     bind (get_ipdb env ns) (\<lambda>_.
     try_finally
       (bind (iface_block cf env ifname ns (subnets vd)) (\<lambda>_.
        route_pass env is_default_gateway (subnets vd)))
       (mark IpdbRelease)))"

definition need_configure_l3 :: "conf \<Rightarrow> vif \<Rightarrow> bool prog" where
  "need_configure_l3 cf v =
     bind (mark (EnterNeedConfigureL3 v)) (\<lambda>_.
       case physnet v of
         None \<Rightarrow> return True
       | Some pn \<Rightarrow>
          (case sriov_physnet_resource_mappings cf pn of
             None \<Rightarrow> bind (mark (Log Exception ''No resource name for physnet %s'' [pn]))
                       (\<lambda>_. raise (KeyError pn))
           | Some resource \<Rightarrow>
              (case sriov_resource_driver_mappings cf resource of
                 None \<Rightarrow> bind (mark (Log Exception ''No driver for resource_name %s'' [resource]))
                           (\<lambda>_. raise (KeyError resource))
               | Some driver_name \<Rightarrow>
                  if driver_name \<in> set (USERSPACE_DRIVERS cf)
                  then bind (mark (Log Info ''_configure_l3 will not be called for vif %s because of it's driver'' [vif_type v]))
                         (\<lambda>_. return False)
                  else return True)))"

definition to_dict :: "conf \<Rightarrow> vif \<Rightarrow> vif_dict prog" where
  \<comment> \<open>the call \<^verbatim>\<open>utils.osvif_vif_to_dict(vif)\<close>\<close>
  "to_dict cf v = (\<lambda>w. (osvif_vif_to_dict cf v, emit (OsvifVifToDict v) w))"

definition connect ::
  "conf \<Rightarrow> env \<Rightarrow> vif \<Rightarrow> string \<Rightarrow> string \<Rightarrow> netns \<Rightarrow> bool \<Rightarrow> string option \<Rightarrow> unit prog" where
  "connect cf env v instance_info ifname ns is_default_gateway container_id =
     bind (convert cf ns) (\<lambda>ns'.
     bind (get_binding_driver cf env v) (\<lambda>driver.
     bind (call env (Plug v instance_info)) (\<lambda>_.
     bind (call env (DriverConnect driver v ifname ns' container_id)) (\<lambda>_.
     bind (need_configure_l3 cf v) (\<lambda>need.
       if need
       then bind (to_dict cf v) (\<lambda>vd. configure_l3 cf env vd ifname ns' is_default_gateway)
       else return ())))))"

definition disconnect ::
  "conf \<Rightarrow> env \<Rightarrow> vif \<Rightarrow> string \<Rightarrow> string \<Rightarrow> netns \<Rightarrow> string option \<Rightarrow> unit prog" where
  "disconnect cf env v instance_info ifname ns container_id =
     bind (get_binding_driver cf env v) (\<lambda>driver.
     bind (call env (DriverDisconnect driver v ifname ns container_id)) (\<lambda>_.
     call env (Unplug v instance_info)))"

section \<open>Observing a run\<close>

definition events_of :: "'a prog \<Rightarrow> world \<Rightarrow> event list" where
  \<comment> \<open>the calls a program issues when started in \<open>w\<close>, oldest first\<close>
  "events_of m w = drop (length (trace w)) (trace (snd (m w)))"

definition grows :: "'a prog \<Rightarrow> bool" where
  \<comment> \<open>the program only appends to the trace\<close>
  "grows m = (\<forall>w. prefix (trace w) (trace (snd (m w))))"

fun is_l3_event :: "event \<Rightarrow> bool" where
  "is_l3_event (EnterConfigureL3 _ _ _ _) = True"
| "is_l3_event (NetNS _) = True"
| "is_l3_event (IPDB _) = True"
| "is_l3_event IpdbRelease = True"
| "is_l3_event (Interface _) = True"
| "is_l3_event (AddIp _ _ _) = True"
| "is_l3_event (IfaceCommit _) = True"
| "is_l3_event (RoutesAdd _ _) = True"
| "is_l3_event (EnterEnableIpv6 _) = True"
| "is_l3_event (OpenFile _ _) = True"
| "is_l3_event (SetNs _) = True"
| "is_l3_event (WriteFile _ _) = True"
| "is_l3_event _ = False"

definition keeps_ns :: "'a prog \<Rightarrow> bool" where
  \<comment> \<open>the program leaves the process in the namespace it started in\<close>
  "keeps_ns m = (\<forall>w. active_ns (snd (m w)) = active_ns w)"

definition restores :: "env \<Rightarrow> bool" where
  \<comment> \<open>\<^verbatim>\<open>setns\<close> on an open namespace file never raises\<close>
  "restores env = (\<forall>h n. env h (SetNs (NsFd n)) = None)"

definition disconnect_plan :: "vif \<Rightarrow> string \<Rightarrow> string \<Rightarrow> netns \<Rightarrow> string option \<Rightarrow> event list" where
  "disconnect_plan v ii ifn ns cid =
     [DriverManager BINDING_NAMESPACE (vif_type v),
      DriverDisconnect (vif_type v) v ifn ns cid,
      Unplug v ii]"

fun is_enable :: "event \<Rightarrow> bool" where
  "is_enable (EnterEnableIpv6 _) = True"
| "is_enable _ = False"

fun is_add_ip :: "event \<Rightarrow> bool" where
  "is_add_ip (AddIp _ _ _) = True"
| "is_add_ip _ = False"

fun is_v6_add :: "event \<Rightarrow> bool" where
  "is_v6_add (AddIp _ _ v) = (v = 6)"
| "is_v6_add _ = False"

fun is_route_add :: "event \<Rightarrow> bool" where
  "is_route_add (RoutesAdd _ _) = True"
| "is_route_add _ = False"

fun is_default_add :: "event \<Rightarrow> bool" where
  "is_default_add (RoutesAdd _ Default) = True"
| "is_default_add _ = False"

definition address_events :: "subnet list \<Rightarrow> event list" where
  \<comment> \<open>one \<open>AddIp\<close> for every address of every subnet, in the order of the dict\<close>
  "address_events ss =
     concat (map (\<lambda>s. map (\<lambda>a. AddIp a (prefixlen (cidr s)) (version (cidr s))) (ips s)) ss)"

definition emits :: "(event \<Rightarrow> bool) \<Rightarrow> 'a prog \<Rightarrow> bool" where
  \<comment> \<open>the program only appends to the trace, and only events satisfying \<open>p\<close>\<close>
  "emits p m = (grows m \<and> (\<forall>w. list_all p (events_of m w)))"

fun enable_kind :: "event \<Rightarrow> bool" where
  "enable_kind (EnterEnableIpv6 _) = True"
| "enable_kind (ConvertNetns _) = True"
| "enable_kind (OpenFile _ _) = True"
| "enable_kind (SetNs _) = True"
| "enable_kind (WriteFile _ _) = True"
| "enable_kind _ = False"

fun route_kind :: "event \<Rightarrow> bool" where
  "route_kind (RoutesAdd _ _) = True"
| "route_kind (Log _ _ _) = True"
| "route_kind _ = False"

definition preceded :: "('a \<Rightarrow> bool) \<Rightarrow> ('a \<Rightarrow> bool) \<Rightarrow> 'a list \<Rightarrow> bool" where
  \<comment> \<open>every element satisfying \<open>q\<close> comes after some element satisfying \<open>p\<close>\<close>
  "preceded p q xs = (\<forall>i < length xs. q (xs ! i) \<longrightarrow> (\<exists>j < i. p (xs ! j)))"

definition all_before :: "('a \<Rightarrow> bool) \<Rightarrow> ('a \<Rightarrow> bool) \<Rightarrow> 'a list \<Rightarrow> bool" where
  \<comment> \<open>every element satisfying \<open>p\<close> comes before every element satisfying \<open>q\<close>\<close>
  "all_before p q xs =
     (\<forall>i < length xs. \<forall>j < length xs. p (xs ! i) \<and> q (xs ! j) \<longrightarrow> i < j)"

fun ipdb_kind :: "event \<Rightarrow> bool" where
  "ipdb_kind (NetNS _) = True"
| "ipdb_kind (IPDB _) = True"
| "ipdb_kind _ = False"

definition tolerated :: "route_dst \<Rightarrow> error \<Rightarrow> bool" where
  \<comment> \<open>the one failure of a route addition that the handler swallows\<close>
  "tolerated d e = (d = Default \<and> e = NetlinkError EEXIST)"

definition fails_at :: "env \<Rightarrow> world \<Rightarrow> event list \<Rightarrow> nat \<Rightarrow> error \<Rightarrow> bool" where
  \<comment> \<open>in a run started in \<open>w\<close> that issued \<open>xs\<close>, the environment raised \<open>e\<close> at call \<open>i\<close>\<close>
  "fails_at env w xs i e = (i < length xs \<and> env (trace w @ take i xs) (xs ! i) = Some e)"

definition handles_routes :: "env \<Rightarrow> 'a prog \<Rightarrow> bool" where
  \<comment> \<open>a tolerated failure of a route addition is followed by its log entry; any other one
      ends the program with that error\<close>
  "handles_routes env m =
     (\<forall>w i gw d e.
        fails_at env w (events_of m w) i e \<and> events_of m w ! i = RoutesAdd gw d \<longrightarrow>
          (if tolerated d e
           then Suc i < length (events_of m w)
                \<and> (\<exists>msg. events_of m w ! Suc i = Log Debug msg [gw])
           else fst (m w) = Inl e \<and> Suc i = length (events_of m w)))"



section \<open>Example inputs\<close>

definition example_conf :: conf where
  "example_conf =
     \<lparr> sriov_physnet_resource_mappings = [''physnet1'' \<mapsto> ''cx5_sriov'', ''physnet2'' \<mapsto> ''x710''],
       sriov_resource_driver_mappings = [''cx5_sriov'' \<mapsto> ''vfio-pci''],
       USERSPACE_DRIVERS = [''vfio-pci'', ''uio'', ''uio_pci_generic'', ''igb_uio''],
       plugins = [''VIFBridge'', ''VIFOpenVSwitch'', ''VIFSriov''],
       convert_netns = Inr,
       osvif_vif_to_dict = (\<lambda>v. Inr \<lparr> subnets = network v \<rparr>) \<rparr>"

definition quiet_env :: env where
  \<comment> \<open>no call raises\<close>
  "quiet_env = (\<lambda>h ev. None)"

definition host_world :: world where
  "host_world = \<lparr> active_ns = ''host'', trace = [] \<rparr>"

definition subnet_v4 :: subnet where
  "subnet_v4 =
     \<lparr> cidr = \<lparr> version = 4, prefixlen = 24 \<rparr>, ips = [''10.0.0.5''],
       routes = [\<lparr> route_gateway = ''10.0.0.1'', route_cidr = ''10.1.0.0/16'' \<rparr>],
       gateway = Some ''10.0.0.1'' \<rparr>"

definition subnet_v6 :: subnet where
  "subnet_v6 =
     \<lparr> cidr = \<lparr> version = 6, prefixlen = 64 \<rparr>, ips = [''fd00::5''],
       routes = [], gateway = Some ''fd00::1'' \<rparr>"

definition vif_bridge :: vif where
  "vif_bridge = \<lparr> vif_type = ''VIFBridge'', physnet = None, network = [subnet_v4, subnet_v6] \<rparr>"

definition vif_unknown :: vif where
  "vif_unknown = \<lparr> vif_type = ''VIFUnknown'', physnet = None, network = [subnet_v4] \<rparr>"

definition vif_sriov :: vif where
  "vif_sriov = \<lparr> vif_type = ''VIFSriov'', physnet = Some ''physnet1'', network = [subnet_v4] \<rparr>"

definition container_ns :: netns where
  "container_ns = Some ''/proc/4242/ns/net''"

definition write_fails :: env where
  \<comment> \<open>writing the \<^verbatim>\<open>disable_ipv6\<close> flag is refused\<close>
  "write_fails = (\<lambda>h ev. case ev of WriteFile _ _ \<Rightarrow> Some (OSError 13) | _ \<Rightarrow> None)"

definition restore_fails :: env where
  \<comment> \<open>\<^verbatim>\<open>setns\<close> back to the saved namespace file is refused\<close>
  "restore_fails = (\<lambda>h ev. case ev of SetNs (NsFd _) \<Rightarrow> Some (OSError 1) | _ \<Rightarrow> None)"

definition dict_v6 :: vif_dict where
  "dict_v6 = \<lparr> subnets = [subnet_v6] \<rparr>"

definition vif_sriov_unmapped :: vif where
  "vif_sriov_unmapped = \<lparr> vif_type = ''VIFSriov'', physnet = Some ''physnet2'', network = [subnet_v4] \<rparr>"

definition dict_dual :: vif_dict where
  "dict_dual = \<lparr> subnets = [subnet_v4, subnet_v6] \<rparr>"

definition dict_two_v6 :: vif_dict where
  "dict_two_v6 = \<lparr> subnets = [subnet_v6, subnet_v6] \<rparr>"

definition default_exists :: env where
  \<comment> \<open>every addition of a default route meets an existing one\<close>
  "default_exists = (\<lambda>h ev. case ev of RoutesAdd _ Default \<Rightarrow> Some (NetlinkError 17) | _ \<Rightarrow> None)"

definition route_conflict :: env where
  \<comment> \<open>every addition of an explicit route meets an existing one\<close>
  "route_conflict = (\<lambda>h ev. case ev of RoutesAdd _ (Dst _) \<Rightarrow> Some (NetlinkError 17) | _ \<Rightarrow> None)"


section \<open>Traces only grow\<close>

lemma growsI: "(\<And>w. \<exists>xs. trace (snd (m w)) = trace w @ xs) \<Longrightarrow> grows m"
  unfolding grows_def prefix_def by simp

lemma grows_trace: "grows m \<Longrightarrow> trace (snd (m w)) = trace w @ events_of m w"
  unfolding grows_def events_of_def prefix_def by (metis append_eq_conv_conj)

lemma grows_return [simp]: "grows (return x)"
  by (simp add: grows_def return_def)

lemma grows_raise [simp]: "grows (raise e)"
  by (simp add: grows_def raise_def)

lemma grows_mark [simp]: "grows (mark ev)"
  by (simp add: grows_def mark_def emit_def)

lemma grows_call [simp]: "grows (call env ev)"
  by (simp add: grows_def call_def emit_def split: option.splits)

lemma grows_convert [simp]: "grows (convert cf ns)"
  by (simp add: grows_def convert_def emit_def)

lemma grows_to_dict [simp]: "grows (to_dict cf v)"
  by (simp add: grows_def to_dict_def emit_def)

lemma grows_ex: "grows m \<Longrightarrow> \<exists>xs. trace (snd (m w)) = trace w @ xs"
  unfolding grows_def prefix_def by simp

lemma events_ofI: "trace (snd (m w)) = trace w @ xs \<Longrightarrow> events_of m w = xs"
  by (simp add: events_of_def)

lemma grows_bind:
  assumes "grows m" and "\<And>x. grows (f x)"
  shows "grows (bind m f)"
proof (rule growsI)
  fix w
  obtain r w' where mw: "m w = (r, w')" by (cases "m w")
  obtain xs where t1: "trace w' = trace w @ xs"
    using grows_ex [OF assms(1), of w] mw by auto
  show "\<exists>xs. trace (snd (bind m f w)) = trace w @ xs"
  proof (cases r)
    case (Inl e)
    then show ?thesis using mw t1 by (simp add: bind_def)
  next
    case (Inr x)
    obtain ys where "trace (snd (f x w')) = trace w' @ ys"
      using grows_ex [OF assms(2)] by blast
    then show ?thesis using Inr mw t1 by (simp add: bind_def)
  qed
qed

lemma grows_try_finally:
  assumes "grows m" and "grows h"
  shows "grows (try_finally m h)"
proof (rule growsI)
  fix w
  obtain r w' where mw: "m w = (r, w')" by (cases "m w")
  obtain r' w'' where hw: "h w' = (r', w'')" by (cases "h w'")
  obtain xs where t1: "trace w' = trace w @ xs"
    using grows_ex [OF assms(1), of w] mw by auto
  obtain ys where t2: "trace w'' = trace w' @ ys"
    using grows_ex [OF assms(2), of w'] hw by auto
  show "\<exists>xs. trace (snd (try_finally m h w)) = trace w @ xs"
    using mw hw t1 t2 by (cases r') (simp_all add: try_finally_def)
qed

lemma events_of_bind:
  assumes "grows m" and "\<And>x. grows (f x)"
  shows "events_of (bind m f) w =
           events_of m w @ (case m w of (Inl e, w') \<Rightarrow> [] | (Inr x, w') \<Rightarrow> events_of (f x) w')"
proof -
  obtain r w' where mw: "m w = (r, w')" by (cases "m w")
  obtain xs where t1: "trace w' = trace w @ xs"
    using grows_ex [OF assms(1), of w] mw by auto
  have e1: "events_of m w = xs"
    using t1 mw by (intro events_ofI) simp
  show ?thesis
  proof (cases r)
    case (Inl e)
    have "events_of (bind m f) w = xs"
      using Inl mw t1 by (intro events_ofI) (simp add: bind_def)
    then show ?thesis using Inl mw e1 by simp
  next
    case (Inr x)
    obtain ys where t2: "trace (snd (f x w')) = trace w' @ ys"
      using grows_ex [OF assms(2)] by blast
    have e2: "events_of (f x) w' = ys"
      using t2 by (rule events_ofI)
    have "events_of (bind m f) w = xs @ ys"
      using Inr mw t1 t2 by (intro events_ofI) (simp add: bind_def)
    then show ?thesis using Inr mw e1 e2 by simp
  qed
qed

lemma events_of_try_finally:
  assumes "grows m" and "grows h"
  shows "events_of (try_finally m h) w = events_of m w @ events_of h (snd (m w))"
proof -
  obtain r w' where mw: "m w = (r, w')" by (cases "m w")
  obtain r' w'' where hw: "h w' = (r', w'')" by (cases "h w'")
  obtain xs where t1: "trace w' = trace w @ xs"
    using grows_ex [OF assms(1), of w] mw by auto
  obtain ys where t2: "trace w'' = trace w' @ ys"
    using grows_ex [OF assms(2), of w'] hw by auto
  have e1: "events_of m w = xs"
    using t1 mw by (intro events_ofI) simp
  have e2: "events_of h w' = ys"
    using t2 hw by (intro events_ofI) simp
  have "events_of (try_finally m h) w = xs @ ys"
    using mw hw t1 t2 by (intro events_ofI) (cases r', simp_all add: try_finally_def)
  then show ?thesis using e1 e2 mw by simp
qed

lemma events_of_return [simp]: "events_of (return x) w = []"
  by (simp add: events_of_def return_def)

lemma events_of_raise [simp]: "events_of (raise e) w = []"
  by (simp add: events_of_def raise_def)

lemma events_of_mark [simp]: "events_of (mark ev) w = [ev]"
  by (simp add: events_of_def mark_def emit_def)

lemma events_of_call [simp]: "events_of (call env ev) w = [ev]"
  by (simp add: events_of_def call_def emit_def split: option.splits)

lemma events_of_convert [simp]: "events_of (convert cf ns) w = [ConvertNetns ns]"
  by (simp add: events_of_def convert_def emit_def)

lemma events_of_to_dict [simp]: "events_of (to_dict cf v) w = [OsvifVifToDict v]"
  by (simp add: events_of_def to_dict_def emit_def)

lemma grows_setns [simp]: "grows (setns env r)"
  by (rule growsI) (simp add: setns_def bind_def call_def emit_def split: option.splits ns_ref.splits)

lemma events_of_setns [simp]: "events_of (setns env r) w = [SetNs r]"
  by (simp add: events_of_def setns_def bind_def call_def emit_def split: option.splits ns_ref.splits)

lemma grows_open_self_ns [simp]: "grows (open_self_ns env p)"
  by (rule growsI) (simp add: open_self_ns_def bind_def call_def emit_def split: option.splits)

lemma events_of_open_self_ns [simp]: "events_of (open_self_ns env p) w = [OpenFile p ''r'']"
  by (simp add: events_of_def open_self_ns_def bind_def call_def emit_def split: option.splits)

lemma grows_disable_flag [simp]: "grows (disable_flag cf env ns)"
  unfolding disable_flag_def by (intro grows_bind grows_setns grows_convert grows_call)

lemma grows_enable_ipv6 [simp]: "grows (enable_ipv6 cf env ns)"
proof (rule growsI)
  fix w
  let ?w = "emit (EnterEnableIpv6 ns) w"
  have g: "grows (try_finally (disable_flag cf env ns) (setns env r))" for r
    by (intro grows_try_finally) simp_all
  have g': "\<exists>xs. trace (snd (try_finally (disable_flag cf env ns) (setns env r) w')) = trace w' @ xs" for r w'
    using grows_ex [OF g] .
  show "\<exists>xs. trace (snd (enable_ipv6 cf env ns w)) = trace w @ xs"
  proof (cases "convert_netns cf (Some ''/proc/self/ns/net'')")
    case (Inl e)
    then show ?thesis by (simp add: enable_ipv6_def Let_def convert_def emit_def)
  next
    case (Inr path)
    show ?thesis
    proof (cases "env (trace w @ [EnterEnableIpv6 ns, ConvertNetns (Some ''/proc/self/ns/net'')]) (OpenFile path ''r'')")
      case (Some e)
      then show ?thesis using Inr
        by (simp add: enable_ipv6_def Let_def convert_def open_self_ns_def bind_def call_def emit_def)
    next
      case None
      then show ?thesis using Inr
          g' [of "NsFd (active_ns w)" "w\<lparr>trace := trace w @ [EnterEnableIpv6 ns, ConvertNetns (Some ''/proc/self/ns/net''), OpenFile path ''r'']\<rparr>"]
        by (auto simp add: enable_ipv6_def Let_def convert_def open_self_ns_def bind_def call_def emit_def)
    qed
  qed
qed

lemma grows_add_ips [simp]: "grows (add_ips env p v as)"
  by (induction as) (auto intro!: grows_bind)

lemma grows_subnet_addresses [simp]: "grows (subnet_addresses cf env ns s)"
  unfolding subnet_addresses_def by (auto intro!: grows_bind)

lemma grows_address_pass [simp]: "grows (address_pass cf env ns ss)"
  by (induction ss) (auto intro!: grows_bind)

lemma grows_add_routes [simp]: "grows (add_routes env rs)"
  by (induction rs) (auto intro!: grows_bind)

lemma grows_add_default_route [simp]: "grows (add_default_route env gw)"
  by (rule growsI)
     (simp add: add_default_route_def call_def mark_def emit_def split: option.splits error.splits)

lemma grows_subnet_routes [simp]: "grows (subnet_routes env g s)"
  unfolding subnet_routes_def by (auto intro!: grows_bind split: option.splits)

lemma grows_route_pass [simp]: "grows (route_pass env g ss)"
  by (induction ss) (auto intro!: grows_bind)

lemma grows_get_ipdb [simp]: "grows (get_ipdb env ns)"
  unfolding get_ipdb_def by (auto intro!: grows_bind split: option.splits)

lemma grows_iface_block [simp]: "grows (iface_block cf env ifn ns ss)"
  unfolding iface_block_def by (auto intro!: grows_bind)

lemma grows_configure_l3 [simp]: "grows (configure_l3 cf env vd ifn ns g)"
  unfolding configure_l3_def by (auto intro!: grows_bind grows_try_finally)

lemma grows_get_binding_driver [simp]: "grows (get_binding_driver cf env v)"
  unfolding get_binding_driver_def by (auto intro!: grows_bind)

lemma grows_need_configure_l3 [simp]: "grows (need_configure_l3 cf v)"
  unfolding need_configure_l3_def by (auto intro!: grows_bind split: option.splits)

lemma grows_connect [simp]: "grows (connect cf env v ii ifn ns g cid)"
  unfolding connect_def by (auto intro!: grows_bind)

lemma grows_disconnect [simp]: "grows (disconnect cf env v ii ifn ns cid)"
  unfolding disconnect_def by (auto intro!: grows_bind)

section \<open>The steps of connect\<close>

lemma events_of_get_binding_driver [simp]:
  "events_of (get_binding_driver cf env v) w = [DriverManager BINDING_NAMESPACE (vif_type v)]"
  by (simp add: get_binding_driver_def events_of_bind grows_bind split: prod.splits sum.splits)

lemma get_binding_driver_unregistered:
  "vif_type v \<notin> set (plugins cf) \<Longrightarrow>
   get_binding_driver cf env v w =
     (Inl (NoMatches BINDING_NAMESPACE (vif_type v)),
      emit (DriverManager BINDING_NAMESPACE (vif_type v)) w)"
  by (simp add: get_binding_driver_def bind_def mark_def raise_def)

lemma get_binding_driver_result:
  "get_binding_driver cf env v w = (Inr d, w') \<Longrightarrow> d = vif_type v"
  by (auto simp: get_binding_driver_def bind_def mark_def raise_def call_def return_def
      split: if_splits option.splits)

lemma connect_unresolved_run:
  assumes "vif_type v \<notin> set (plugins cf)" and "convert_netns cf ns = Inr ns'"
  shows "connect cf env v ii ifn ns g cid w =
           (Inl (NoMatches BINDING_NAMESPACE (vif_type v)),
            w\<lparr>trace := trace w @ [ConvertNetns ns, DriverManager BINDING_NAMESPACE (vif_type v)]\<rparr>)"
  using assms
  by (simp add: connect_def bind_def convert_def get_binding_driver_unregistered emit_def)

lemma need_userspace:
  assumes "physnet v = Some pn"
    and "sriov_physnet_resource_mappings cf pn = Some r"
    and "sriov_resource_driver_mappings cf r = Some d"
    and "d \<in> set (USERSPACE_DRIVERS cf)"
  shows "fst (need_configure_l3 cf v w) = Inr False"
  using assms by (simp add: need_configure_l3_def bind_def mark_def return_def)

lemma events_of_need_no_l3:
  "e \<in> set (events_of (need_configure_l3 cf v) w) \<Longrightarrow> \<not> is_l3_event e"
  by (auto simp: need_configure_l3_def events_of_bind grows_bind
      split: option.splits prod.splits sum.splits if_splits)

section \<open>Evaluating a run\<close>

lemma run_simps:
  "bind m f w = (case m w of (Inl e, w') \<Rightarrow> (Inl e, w') | (Inr x, w') \<Rightarrow> f x w')"
  "return x w = (Inr x, w)"
  "raise e w = (Inl e, w)"
  "mark ev w = (Inr (), emit ev w)"
  "call env ev w = (case env (trace w) ev of None \<Rightarrow> (Inr (), emit ev w) | Some e \<Rightarrow> (Inl e, emit ev w))"
  "try_finally m h w = (case m w of (r, w') \<Rightarrow>
     (case h w' of (Inl e, w'') \<Rightarrow> (Inl e, w'') | (Inr _, w'') \<Rightarrow> (r, w'')))"
  "convert cf ns w = (convert_netns cf ns, emit (ConvertNetns ns) w)"
  "to_dict cf v w = (osvif_vif_to_dict cf v, emit (OsvifVifToDict v) w)"
  by (simp_all add: bind_def return_def raise_def mark_def call_def try_finally_def convert_def to_dict_def)

lemmas model_defs = configure_l3_def get_ipdb_def iface_block_def subnet_addresses_def enable_ipv6_def
  open_self_ns_def disable_flag_def setns_def add_default_route_def subnet_routes_def
  get_binding_driver_def need_configure_l3_def connect_def disconnect_def emit_def events_of_def
  Let_def BINDING_NAMESPACE_def EEXIST_def

lemmas example_defs = example_conf_def quiet_env_def host_world_def subnet_v4_def subnet_v6_def
  vif_bridge_def vif_unknown_def vif_sriov_def container_ns_def

section \<open>The active namespace\<close>

lemma keeps_nsD: "keeps_ns m \<Longrightarrow> active_ns (snd (m w)) = active_ns w"
  by (simp add: keeps_ns_def)

lemma keeps_return [simp]: "keeps_ns (return x)"
  by (simp add: keeps_ns_def return_def)

lemma keeps_raise [simp]: "keeps_ns (raise e)"
  by (simp add: keeps_ns_def raise_def)

lemma keeps_mark [simp]: "keeps_ns (mark ev)"
  by (simp add: keeps_ns_def mark_def emit_def)

lemma keeps_call [simp]: "keeps_ns (call env ev)"
  by (simp add: keeps_ns_def call_def emit_def split: option.splits)

lemma keeps_to_dict [simp]: "keeps_ns (to_dict cf v)"
  by (simp add: keeps_ns_def to_dict_def emit_def)

lemma keeps_convert [simp]: "keeps_ns (convert cf ns)"
  by (simp add: keeps_ns_def convert_def emit_def)

lemma keeps_bind:
  assumes "keeps_ns m" and "\<And>x. keeps_ns (f x)"
  shows "keeps_ns (bind m f)"
  unfolding keeps_ns_def
proof
  fix w
  obtain r w' where mw: "m w = (r, w')" by (cases "m w")
  have a: "active_ns w' = active_ns w"
    using keeps_nsD [OF assms(1), of w] mw by simp
  show "active_ns (snd (bind m f w)) = active_ns w"
  proof (cases r)
    case (Inl e)
    then show ?thesis using mw a by (simp add: bind_def)
  next
    case (Inr x)
    then show ?thesis using mw a keeps_nsD [OF assms(2), of x w'] by (simp add: bind_def)
  qed
qed

lemma keeps_try_finally:
  assumes "keeps_ns m" and "keeps_ns h"
  shows "keeps_ns (try_finally m h)"
  unfolding keeps_ns_def
proof
  fix w
  obtain r w' where mw: "m w = (r, w')" by (cases "m w")
  obtain r' w'' where hw: "h w' = (r', w'')" by (cases "h w'")
  have "active_ns w' = active_ns w"
    using keeps_nsD [OF assms(1), of w] mw by simp
  moreover have "active_ns w'' = active_ns w'"
    using keeps_nsD [OF assms(2), of w'] hw by simp
  ultimately show "active_ns (snd (try_finally m h w)) = active_ns w"
    using mw hw by (cases r') (simp_all add: try_finally_def)
qed

lemma restore_after:
  assumes "restores env"
  shows "active_ns (snd (try_finally m (setns env (NsFd n)) w)) = n"
proof -
  obtain r w' where mw: "m w = (r, w')" by (cases "m w")
  have "env (trace w') (SetNs (NsFd n)) = None"
    using assms by (simp add: restores_def)
  then show ?thesis
    using mw by (simp add: try_finally_def setns_def bind_def call_def emit_def)
qed

lemma keeps_enable_ipv6:
  assumes "restores env"
  shows "keeps_ns (enable_ipv6 cf env ns)"
  unfolding keeps_ns_def
proof
  fix w
  let ?w = "emit (EnterEnableIpv6 ns) w"
  obtain r1 w1 where c: "convert cf (Some ''/proc/self/ns/net'') ?w = (r1, w1)"
    by (cases "convert cf (Some ''/proc/self/ns/net'') ?w")
  have a1: "active_ns w1 = active_ns w"
    using c by (auto simp: convert_def emit_def)
  show "active_ns (snd (enable_ipv6 cf env ns w)) = active_ns w"
  proof (cases r1)
    case (Inl e)
    then show ?thesis using c a1 by (simp add: enable_ipv6_def Let_def)
  next
    case (Inr path)
    obtain r2 w2 where ob: "open_self_ns env path w1 = (r2, w2)"
      by (cases "open_self_ns env path w1")
    have a2: "active_ns w2 = active_ns w"
      using ob a1
      by (auto simp: open_self_ns_def bind_def call_def emit_def split: option.splits)
    show ?thesis
    proof (cases r2)
      case (Inl e)
      then show ?thesis using c Inr ob a2 by (simp add: enable_ipv6_def Let_def)
    next
      case fd: (Inr fd)
      have "fd = NsFd (active_ns w)"
        using ob fd a1
        by (auto simp: open_self_ns_def bind_def call_def emit_def split: option.splits)
      then show ?thesis
        using c Inr ob fd restore_after [OF assms]
        by (simp add: enable_ipv6_def Let_def)
    qed
  qed
qed

lemma keeps_add_ips [simp]: "keeps_ns (add_ips env p v as)"
  by (induction as) (auto intro!: keeps_bind)

lemma keeps_subnet_addresses:
  "restores env \<Longrightarrow> keeps_ns (subnet_addresses cf env ns s)"
  unfolding subnet_addresses_def by (auto intro!: keeps_bind keeps_enable_ipv6)

lemma keeps_address_pass:
  "restores env \<Longrightarrow> keeps_ns (address_pass cf env ns ss)"
  by (induction ss) (auto intro!: keeps_bind keeps_subnet_addresses)

lemma keeps_add_routes [simp]: "keeps_ns (add_routes env rs)"
  by (induction rs) (auto intro!: keeps_bind)

lemma keeps_add_default_route [simp]: "keeps_ns (add_default_route env gw)"
  by (simp add: keeps_ns_def add_default_route_def call_def mark_def emit_def
      split: option.splits error.splits)

lemma keeps_subnet_routes [simp]: "keeps_ns (subnet_routes env g s)"
  unfolding subnet_routes_def by (auto intro!: keeps_bind split: option.splits)

lemma keeps_route_pass [simp]: "keeps_ns (route_pass env g ss)"
  by (induction ss) (auto intro!: keeps_bind)

lemma keeps_get_ipdb [simp]: "keeps_ns (get_ipdb env ns)"
  unfolding get_ipdb_def by (auto intro!: keeps_bind split: option.splits)

lemma keeps_configure_l3:
  "restores env \<Longrightarrow> keeps_ns (configure_l3 cf env vd ifn ns g)"
  unfolding configure_l3_def iface_block_def
  by (auto intro!: keeps_bind keeps_try_finally keeps_address_pass)

lemma keeps_get_binding_driver [simp]: "keeps_ns (get_binding_driver cf env v)"
  unfolding get_binding_driver_def by (auto intro!: keeps_bind)

lemma keeps_disconnect: "keeps_ns (disconnect cf env v ii ifn ns cid)"
  unfolding disconnect_def by (auto intro!: keeps_bind)

section \<open>The L3 policy and the teardown\<close>

lemma need_unmapped_physnet:
  assumes "physnet v = Some pn" and "sriov_physnet_resource_mappings cf pn = None"
  shows "need_configure_l3 cf v w =
           (Inl (KeyError pn),
            w\<lparr>trace := trace w @ [EnterNeedConfigureL3 v,
                                    Log Exception ''No resource name for physnet %s'' [pn]]\<rparr>)"
  using assms by (simp add: need_configure_l3_def run_simps emit_def)

lemma need_unmapped_resource:
  assumes "physnet v = Some pn" and "sriov_physnet_resource_mappings cf pn = Some r"
    and "sriov_resource_driver_mappings cf r = None"
  shows "need_configure_l3 cf v w =
           (Inl (KeyError r),
            w\<lparr>trace := trace w @ [EnterNeedConfigureL3 v,
                                    Log Exception ''No driver for resource_name %s'' [r]]\<rparr>)"
  using assms by (simp add: need_configure_l3_def run_simps emit_def)

lemma need_unmapped:
  assumes "physnet v = Some pn"
    and "sriov_physnet_resource_mappings cf pn = None \<and> key = pn
         \<or> (\<exists>r. sriov_physnet_resource_mappings cf pn = Some r
                \<and> sriov_resource_driver_mappings cf r = None \<and> key = r)"
  shows "\<exists>msg. need_configure_l3 cf v w =
           (Inl (KeyError key),
            w\<lparr>trace := trace w @ [EnterNeedConfigureL3 v, Log Exception msg [key]]\<rparr>)"
  using assms need_unmapped_physnet [of v pn cf w] need_unmapped_resource [of v pn cf _ w]
  by auto

lemma disconnect_events:
  "events_of (disconnect cf env v ii ifn ns cid) w =
     DriverManager BINDING_NAMESPACE (vif_type v) #
     (case get_binding_driver cf env v w of
        (Inl e, w1) \<Rightarrow> []
      | (Inr driver, w1) \<Rightarrow>
          DriverDisconnect (vif_type v) v ifn ns cid #
          (case call env (DriverDisconnect (vif_type v) v ifn ns cid) w1 of
             (Inl e, w2) \<Rightarrow> []
           | (Inr _, w2) \<Rightarrow> [Unplug v ii]))"
  by (auto simp: disconnect_def events_of_bind grows_bind
      split: prod.splits sum.splits dest: get_binding_driver_result)

lemma disconnect_success:
  "fst (disconnect cf env v ii ifn ns cid w) = Inr () \<Longrightarrow>
   events_of (disconnect cf env v ii ifn ns cid) w = disconnect_plan v ii ifn ns cid"
  unfolding disconnect_events disconnect_plan_def
  by (auto simp: disconnect_def bind_def split: prod.splits sum.splits dest: get_binding_driver_result)

section \<open>What each part of configure_l3 emits\<close>

lemma emitsI: "grows m \<Longrightarrow> (\<And>w. list_all p (events_of m w)) \<Longrightarrow> emits p m"
  by (simp add: emits_def)

lemma emitsD: "emits p m \<Longrightarrow> list_all p (events_of m w)"
  by (simp add: emits_def)

lemma emits_mono: "emits p m \<Longrightarrow> (\<And>e. p e \<Longrightarrow> q e) \<Longrightarrow> emits q m"
  unfolding emits_def list_all_iff by blast

lemma emits_return [simp]: "emits p (return x)"
  by (simp add: emits_def)

lemma emits_raise [simp]: "emits p (raise e)"
  by (simp add: emits_def)

lemma emits_call: "p ev \<Longrightarrow> emits p (call env ev)"
  by (simp add: emits_def)

lemma emits_bind:
  assumes "emits p m" and "\<And>x. emits p (f x)"
  shows "emits p (bind m f)"
proof (rule emitsI)
  show "grows (bind m f)"
    using assms by (intro grows_bind) (simp_all add: emits_def)
  fix w
  have "events_of (bind m f) w =
          events_of m w @ (case m w of (Inl e, w') \<Rightarrow> [] | (Inr x, w') \<Rightarrow> events_of (f x) w')"
    using assms by (intro events_of_bind) (simp_all add: emits_def)
  then show "list_all p (events_of (bind m f) w)"
    using emitsD [OF assms(1), of w] emitsD [OF assms(2)]
    by (auto split: prod.splits sum.splits)
qed

lemma emits_try_finally:
  assumes "emits p m" and "emits p h"
  shows "emits p (try_finally m h)"
proof (rule emitsI)
  show "grows (try_finally m h)"
    using assms by (intro grows_try_finally) (simp_all add: emits_def)
  fix w
  have "events_of (try_finally m h) w = events_of m w @ events_of h (snd (m w))"
    using assms by (intro events_of_try_finally) (simp_all add: emits_def)
  then show "list_all p (events_of (try_finally m h) w)"
    using emitsD [OF assms(1), of w] emitsD [OF assms(2)] by simp
qed

lemma enable_ipv6_events:
  "events_of (enable_ipv6 cf env ns) w =
     EnterEnableIpv6 ns # ConvertNetns (Some ''/proc/self/ns/net'') #
     (case convert_netns cf (Some ''/proc/self/ns/net'') of
        Inl e \<Rightarrow> []
      | Inr path \<Rightarrow>
          OpenFile path ''r'' #
          (case env (trace w @ [EnterEnableIpv6 ns, ConvertNetns (Some ''/proc/self/ns/net'')])
                  (OpenFile path ''r'') of
             Some e \<Rightarrow> []
           | None \<Rightarrow>
               events_of (try_finally (disable_flag cf env ns) (setns env (NsFd (active_ns w))))
                 (w\<lparr>trace := trace w @ [EnterEnableIpv6 ns, ConvertNetns (Some ''/proc/self/ns/net''),
                                          OpenFile path ''r'']\<rparr>)))"
proof (cases "convert_netns cf (Some ''/proc/self/ns/net'')")
  case (Inl e)
  then show ?thesis
    by (simp add: enable_ipv6_def Let_def run_simps emit_def events_of_def)
next
  case (Inr path)
  let ?h = "trace w @ [EnterEnableIpv6 ns, ConvertNetns (Some ''/proc/self/ns/net'')]"
  show ?thesis
  proof (cases "env ?h (OpenFile path ''r'')")
    case (Some e)
    then show ?thesis using Inr
      by (simp add: enable_ipv6_def Let_def run_simps open_self_ns_def emit_def events_of_def)
  next
    case None
    let ?w3 = "w\<lparr>trace := ?h @ [OpenFile path ''r'']\<rparr>"
    let ?tf = "try_finally (disable_flag cf env ns) (setns env (NsFd (active_ns w)))"
    have run: "enable_ipv6 cf env ns w = ?tf ?w3"
      using Inr None
      by (simp add: enable_ipv6_def Let_def run_simps open_self_ns_def emit_def)
    have "grows ?tf"
      by (intro grows_try_finally) simp_all
    then have "trace (snd (?tf ?w3)) = trace ?w3 @ events_of ?tf ?w3"
      by (rule grows_trace)
    then have "events_of (enable_ipv6 cf env ns) w =
                 [EnterEnableIpv6 ns, ConvertNetns (Some ''/proc/self/ns/net''), OpenFile path ''r'']
                 @ events_of ?tf ?w3"
      using run by (intro events_ofI) simp
    then show ?thesis using Inr None by simp
  qed
qed

lemma emits_disable_flag:
  "emits (\<lambda>e. enable_kind e \<and> \<not> is_enable e) (disable_flag cf env ns)"
proof -
  have s: "emits (\<lambda>e. enable_kind e \<and> \<not> is_enable e) (setns env r)" for r
    by (rule emitsI) simp_all
  have c: "emits (\<lambda>e. enable_kind e \<and> \<not> is_enable e) (convert cf p)" for p
    by (rule emitsI) simp_all
  show ?thesis
    unfolding disable_flag_def
    by (intro emits_bind s c emits_call) simp_all
qed

lemma enable_ipv6_tail:
  "list_all (\<lambda>e. enable_kind e \<and> \<not> is_enable e)
     (events_of (try_finally (disable_flag cf env ns) (setns env r)) w)"
proof -
  have s: "emits (\<lambda>e. enable_kind e \<and> \<not> is_enable e) (setns env r)"
    by (rule emitsI) simp_all
  have "emits (\<lambda>e. enable_kind e \<and> \<not> is_enable e)
          (try_finally (disable_flag cf env ns) (setns env r))"
    by (intro emits_try_finally emits_disable_flag s)
  then show ?thesis by (rule emitsD)
qed

lemma emits_enable_ipv6: "emits enable_kind (enable_ipv6 cf env ns)"
proof (rule emitsI)
  fix w
  have "list_all enable_kind (events_of (try_finally (disable_flag cf env ns) (setns env r)) w')" for r w'
    using enable_ipv6_tail [of cf env ns r w'] by (simp add: list_all_iff)
  then show "list_all enable_kind (events_of (enable_ipv6 cf env ns) w)"
    by (simp add: enable_ipv6_events split: sum.splits option.splits)
qed simp

lemma enable_ipv6_entered_once:
  "filter is_enable (events_of (enable_ipv6 cf env ns) w) = [EnterEnableIpv6 ns]"
proof -
  have "filter is_enable (events_of (try_finally (disable_flag cf env ns) (setns env r)) w') = []" for r w'
    using enable_ipv6_tail [of cf env ns r w'] by (simp add: list_all_iff filter_empty_conv)
  then show ?thesis
    by (simp add: enable_ipv6_events split: sum.splits option.splits)
qed

lemma emits_add_ips: "emits is_add_ip (add_ips env p v as)"
  by (induction as) (auto intro!: emits_bind emits_call)

lemma emits_add_routes: "emits route_kind (add_routes env rs)"
  by (induction rs) (auto intro!: emits_bind emits_call)

lemma emits_add_default_route: "emits route_kind (add_default_route env gw)"
  by (rule emitsI)
     (simp, simp add: events_of_def add_default_route_def run_simps emit_def
        split: option.splits error.splits)

lemma emits_subnet_routes: "emits route_kind (subnet_routes env g s)"
  unfolding subnet_routes_def
  by (auto intro!: emits_bind emits_add_routes emits_add_default_route split: option.splits)

lemma emits_route_pass: "emits route_kind (route_pass env g ss)"
  by (induction ss) (auto intro!: emits_bind emits_subnet_routes)


lemma bind_success:
  "fst (bind m f w) = Inr y \<Longrightarrow> \<exists>x w'. m w = (Inr x, w') \<and> fst (f x w') = Inr y"
  by (auto simp: bind_def split: prod.splits sum.splits)

lemma all_before_append:
  assumes "list_all (\<lambda>e. \<not> q e) xs" and "list_all (\<lambda>e. \<not> p e) ys"
  shows "all_before p q (xs @ ys)"
  unfolding all_before_def
proof (intro allI impI)
  fix i j
  assume i: "i < length (xs @ ys)" and j: "j < length (xs @ ys)"
    and pq: "p ((xs @ ys) ! i) \<and> q ((xs @ ys) ! j)"
  have "i < length xs"
  proof (rule ccontr)
    assume "\<not> i < length xs"
    then have "(xs @ ys) ! i = ys ! (i - length xs)" and "i - length xs < length ys"
      using i by (simp_all add: nth_append)
    then show False using assms(2) pq by (simp add: list_all_length)
  qed
  moreover have "\<not> j < length xs"
  proof
    assume "j < length xs"
    then have "(xs @ ys) ! j = xs ! j" by (simp add: nth_append)
    then show False using assms(1) pq \<open>j < length xs\<close> by (simp add: list_all_length)
  qed
  ultimately show "i < j" by simp
qed

lemma preceded_none: "list_all (\<lambda>e. \<not> q e) xs \<Longrightarrow> preceded p q xs"
  by (simp add: preceded_def list_all_length)

lemma preceded_head: "p x \<Longrightarrow> \<not> q x \<Longrightarrow> preceded p q (x # xs)"
  unfolding preceded_def
proof (intro allI impI)
  fix i
  assume a: "p x" "\<not> q x" "i < length (x # xs)" "q ((x # xs) ! i)"
  then have "0 < i" by (cases i) auto
  then show "\<exists>j<i. p ((x # xs) ! j)" using a(1) by (intro exI [of _ 0]) simp
qed

lemma preceded_append:
  assumes "preceded p q xs" and "preceded p q ys"
  shows "preceded p q (xs @ ys)"
  unfolding preceded_def
proof (intro allI impI)
  fix i
  assume i: "i < length (xs @ ys)" and qi: "q ((xs @ ys) ! i)"
  show "\<exists>j<i. p ((xs @ ys) ! j)"
  proof (cases "i < length xs")
    case True
    then obtain j where "j < i" "p (xs ! j)"
      using assms(1) qi by (auto simp: preceded_def nth_append)
    then show ?thesis using True by (intro exI [of _ j]) (simp add: nth_append)
  next
    case False
    then have "i - length xs < length ys" "q (ys ! (i - length xs))"
      using i qi by (simp_all add: nth_append)
    then obtain j where j: "j < i - length xs" "p (ys ! j)"
      using assms(2) by (auto simp: preceded_def)
    then show ?thesis
      using False by (intro exI [of _ "length xs + j"]) (simp add: nth_append)
  qed
qed

section \<open>The address pass\<close>

lemma enable_kind_not_add_ip: "enable_kind e \<Longrightarrow> \<not> is_add_ip e"
  by (cases e) simp_all

lemma add_ip_not_enable: "is_add_ip e \<Longrightarrow> \<not> is_enable e"
  by (cases e) simp_all

lemma add_ips_events_kind:
  "emits (\<lambda>e. \<exists>a. e = AddIp a p v) (add_ips env p v as)"
  by (induction as) (auto intro!: emits_bind emits_call)

lemma add_ips_success:
  "fst (add_ips env p v as w) = Inr () \<Longrightarrow>
   events_of (add_ips env p v as) w = map (\<lambda>a. AddIp a p v) as"
proof (induction as arbitrary: w)
  case Nil
  then show ?case by simp
next
  case (Cons a as)
  obtain w' where 1: "call env (AddIp a p v) w = (Inr (), w')"
    and 2: "fst (add_ips env p v as w') = Inr ()"
    using bind_success [OF Cons.prems [simplified]] by auto
  show ?case
    using 1 Cons.IH [OF 2] by (simp add: events_of_bind)
qed

lemma enable_no_add_ip: "filter is_add_ip (events_of (enable_ipv6 cf env ns) w) = []"
proof -
  have "list_all enable_kind (events_of (enable_ipv6 cf env ns) w)"
    using emits_enable_ipv6 by (rule emitsD)
  then show ?thesis
    using enable_kind_not_add_ip by (auto simp: filter_empty_conv list_all_iff)
qed

lemma add_ips_no_enable: "filter is_enable (events_of (add_ips env p v as) w) = []"
proof -
  have "list_all is_add_ip (events_of (add_ips env p v as) w)"
    using emits_add_ips by (rule emitsD)
  then show ?thesis
    using add_ip_not_enable by (auto simp: filter_empty_conv list_all_iff)
qed

lemma subnet_addresses_events:
  "events_of (subnet_addresses cf env ns s) w =
     (if version (cidr s) = 6
      then events_of (enable_ipv6 cf env ns) w @
           (case enable_ipv6 cf env ns w of
              (Inl e, w1) \<Rightarrow> []
            | (Inr u, w1) \<Rightarrow>
                events_of (add_ips env (prefixlen (cidr s)) (version (cidr s)) (ips s)) w1)
      else events_of (add_ips env (prefixlen (cidr s)) (version (cidr s)) (ips s)) w)"
  by (simp add: subnet_addresses_def events_of_bind run_simps(2))

lemma emits_subnet_addresses:
  "emits (\<lambda>e. enable_kind e \<or> is_add_ip e) (subnet_addresses cf env ns s)"
proof -
  have 1: "emits (\<lambda>e. enable_kind e \<or> is_add_ip e) (enable_ipv6 cf env ns)"
    by (rule emits_mono [OF emits_enable_ipv6]) simp
  have 2: "emits (\<lambda>e. enable_kind e \<or> is_add_ip e) (add_ips env p v as)" for p v as
    by (rule emits_mono [OF emits_add_ips]) simp
  show ?thesis
    unfolding subnet_addresses_def using 1 2 by (auto intro!: emits_bind)
qed

lemma emits_address_pass:
  "emits (\<lambda>e. enable_kind e \<or> is_add_ip e) (address_pass cf env ns ss)"
  by (induction ss) (auto intro!: emits_bind emits_subnet_addresses)

lemma subnet_addresses_entered:
  "length (filter is_enable (events_of (subnet_addresses cf env ns s) w))
     = (if version (cidr s) = 6 then 1 else 0)"
  by (simp add: subnet_addresses_events enable_ipv6_entered_once add_ips_no_enable
      split: prod.splits sum.splits)

lemma subnet_addresses_preceded:
  "preceded is_enable is_v6_add (events_of (subnet_addresses cf env ns s) w)"
proof (cases "version (cidr s) = 6")
  case True
  have "\<exists>xs. events_of (enable_ipv6 cf env ns) w = EnterEnableIpv6 ns # xs"
    by (simp add: enable_ipv6_events)
  then obtain xs where "events_of (subnet_addresses cf env ns s) w = EnterEnableIpv6 ns # xs"
    using True by (auto simp: subnet_addresses_events)
  then show ?thesis by (simp add: preceded_head)
next
  case False
  have "list_all (\<lambda>e. \<exists>a. e = AddIp a (prefixlen (cidr s)) (version (cidr s)))
          (events_of (add_ips env (prefixlen (cidr s)) (version (cidr s)) (ips s)) w)"
    using add_ips_events_kind by (rule emitsD)
  then have "list_all (\<lambda>e. \<not> is_v6_add e) (events_of (subnet_addresses cf env ns s) w)"
    using False by (auto simp: subnet_addresses_events list_all_iff)
  then show ?thesis by (rule preceded_none)
qed

lemma subnet_addresses_success:
  assumes "fst (subnet_addresses cf env ns s w) = Inr ()"
  shows "filter is_add_ip (events_of (subnet_addresses cf env ns s) w)
           = map (\<lambda>a. AddIp a (prefixlen (cidr s)) (version (cidr s))) (ips s)"
proof -
  let ?en = "if version (cidr s) = 6 then enable_ipv6 cf env ns else return ()"
  let ?add = "add_ips env (prefixlen (cidr s)) (version (cidr s)) (ips s)"
  obtain w1 where 1: "?en w = (Inr (), w1)" and 2: "fst (?add w1) = Inr ()"
    using bind_success [OF assms [unfolded subnet_addresses_def]] by auto
  have a: "events_of ?add w1 = map (\<lambda>a. AddIp a (prefixlen (cidr s)) (version (cidr s))) (ips s)"
    using add_ips_success [OF 2] .
  have e: "events_of (subnet_addresses cf env ns s) w = events_of ?en w @ events_of ?add w1"
    unfolding subnet_addresses_def using 1 by (subst events_of_bind) simp_all
  have n: "filter is_add_ip (events_of ?en w) = []"
    using enable_no_add_ip by simp
  show ?thesis
    unfolding e using n a by (simp add: filter_id_conv)
qed

lemma address_pass_events:
  "events_of (address_pass cf env ns (s # ss)) w =
     events_of (subnet_addresses cf env ns s) w @
     (case subnet_addresses cf env ns s w of
        (Inl e, w1) \<Rightarrow> []
      | (Inr u, w1) \<Rightarrow> events_of (address_pass cf env ns ss) w1)"
  by (simp add: events_of_bind)

lemma address_pass_success:
  "fst (address_pass cf env ns ss w) = Inr () \<Longrightarrow>
   filter is_add_ip (events_of (address_pass cf env ns ss) w) = address_events ss"
proof (induction ss arbitrary: w)
  case Nil
  then show ?case by (simp add: address_events_def)
next
  case (Cons s ss)
  obtain w1 where 1: "subnet_addresses cf env ns s w = (Inr (), w1)"
    and 2: "fst (address_pass cf env ns ss w1) = Inr ()"
    using bind_success [OF Cons.prems [simplified]] by auto
  have 3: "fst (subnet_addresses cf env ns s w) = Inr ()"
    using 1 by simp
  show ?case
    unfolding address_pass_events
    using 1 subnet_addresses_success [OF 3] Cons.IH [OF 2] by (simp add: address_events_def)
qed

lemma address_pass_entered_le:
  "length (filter is_enable (events_of (address_pass cf env ns ss) w))
     \<le> length (filter (\<lambda>s. version (cidr s) = 6) ss)"
proof (induction ss arbitrary: w)
  case Nil
  then show ?case by simp
next
  case (Cons s ss)
  obtain r w1 where 1: "subnet_addresses cf env ns s w = (r, w1)"
    by (cases "subnet_addresses cf env ns s w")
  have 2: "length (filter is_enable (events_of (subnet_addresses cf env ns s) w))
             = (if version (cidr s) = 6 then 1 else 0)"
    by (rule subnet_addresses_entered)
  show ?case
  proof (cases r)
    case (Inl e)
    then show ?thesis
      unfolding address_pass_events using 1 2 by simp
  next
    case (Inr u)
    then show ?thesis
      unfolding address_pass_events using 1 2 Cons.IH [of w1] by simp
  qed
qed

lemma address_pass_entered_eq:
  "fst (address_pass cf env ns ss w) = Inr () \<Longrightarrow>
   length (filter is_enable (events_of (address_pass cf env ns ss) w))
     = length (filter (\<lambda>s. version (cidr s) = 6) ss)"
proof (induction ss arbitrary: w)
  case Nil
  then show ?case by simp
next
  case (Cons s ss)
  obtain w1 where 1: "subnet_addresses cf env ns s w = (Inr (), w1)"
    and 2: "fst (address_pass cf env ns ss w1) = Inr ()"
    using bind_success [OF Cons.prems [simplified]] by auto
  show ?case
    unfolding address_pass_events
    using 1 subnet_addresses_entered [of cf env ns s w] Cons.IH [OF 2] by simp
qed

lemma address_pass_preceded:
  "preceded is_enable is_v6_add (events_of (address_pass cf env ns ss) w)"
proof (induction ss arbitrary: w)
  case Nil
  then show ?case by (simp add: preceded_def)
next
  case (Cons s ss)
  obtain r w1 where 1: "subnet_addresses cf env ns s w = (r, w1)"
    by (cases "subnet_addresses cf env ns s w")
  show ?case
  proof (cases r)
    case (Inl e)
    then show ?thesis
      unfolding address_pass_events using 1 subnet_addresses_preceded [of cf env ns s w] by simp
  next
    case (Inr u)
    then show ?thesis
      unfolding address_pass_events
      using 1 preceded_append [OF subnet_addresses_preceded [of cf env ns s w] Cons.IH [of w1]]
      by simp
  qed
qed

lemma emits_get_ipdb: "emits ipdb_kind (get_ipdb env ns)"
  unfolding get_ipdb_def by (auto intro!: emits_bind emits_call split: option.splits)

lemma configure_l3_run:
  "configure_l3 cf env vd ifn ns g w =
     (case get_ipdb env ns (emit (EnterConfigureL3 vd ifn ns g) w) of
        (Inl e, w1) \<Rightarrow> (Inl e, w1)
      | (Inr u, w1) \<Rightarrow>
         (case call env (Interface ifn) w1 of
            (Inl e, w2) \<Rightarrow> (Inl e, emit IpdbRelease w2)
          | (Inr u, w2) \<Rightarrow>
             (case address_pass cf env ns (subnets vd) w2 of
                (Inl e, w3) \<Rightarrow> (Inl e, emit IpdbRelease w3)
              | (Inr u, w3) \<Rightarrow>
                 (case call env (IfaceCommit ifn) w3 of
                    (Inl e, w4) \<Rightarrow> (Inl e, emit IpdbRelease w4)
                  | (Inr u, w4) \<Rightarrow>
                     (fst (route_pass env g (subnets vd) w4),
                      emit IpdbRelease (snd (route_pass env g (subnets vd) w4)))))))"
  by (simp add: configure_l3_def iface_block_def bind_def try_finally_def mark_def
      split: prod.splits sum.splits)

lemma configure_l3_cases [case_names no_ipdb no_iface addr_failed commit_failed routes]:
  fixes cf env vd ifn ns g w
  defines "xs \<equiv> events_of (configure_l3 cf env vd ifn ns g) w"
    and "r \<equiv> fst (configure_l3 cf env vd ifn ns g w)"
    and "en \<equiv> EnterConfigureL3 vd ifn ns g"
  obtains
    (no_ipdb) I e where "r = Inl e" "xs = en # I" "list_all ipdb_kind I"
  | (no_iface) I e where "r = Inl e" "xs = en # I @ [Interface ifn, IpdbRelease]"
      "list_all ipdb_kind I"
  | (addr_failed) I wa e where "r = Inl e" "list_all ipdb_kind I"
      "fst (address_pass cf env ns (subnets vd) wa) = Inl e"
      "xs = en # I @ Interface ifn # events_of (address_pass cf env ns (subnets vd)) wa @ [IpdbRelease]"
  | (commit_failed) I wa e where "r = Inl e" "list_all ipdb_kind I"
      "fst (address_pass cf env ns (subnets vd) wa) = Inr ()"
      "xs = en # I @ Interface ifn # events_of (address_pass cf env ns (subnets vd)) wa
             @ [IfaceCommit ifn, IpdbRelease]"
  | (routes) I wa wb where "r = fst (route_pass env g (subnets vd) wb)" "list_all ipdb_kind I"
      "fst (address_pass cf env ns (subnets vd) wa) = Inr ()"
      "xs = en # I @ Interface ifn # events_of (address_pass cf env ns (subnets vd)) wa
             @ IfaceCommit ifn # events_of (route_pass env g (subnets vd)) wb @ [IpdbRelease]"
      "trace wb = trace w @ en # I @ Interface ifn #
                    events_of (address_pass cf env ns (subnets vd)) wa @ [IfaceCommit ifn]"
proof -
  let ?w0 = "emit en w"
  let ?I = "events_of (get_ipdb env ns) ?w0"
  have I: "list_all ipdb_kind ?I"
    using emits_get_ipdb by (rule emitsD)
  obtain r1 w1 where 1: "get_ipdb env ns ?w0 = (r1, w1)"
    by (cases "get_ipdb env ns ?w0")
  have t1: "trace w1 = trace w @ en # ?I"
    using grows_trace [of "get_ipdb env ns" ?w0] 1 by (simp add: emit_def)
  show thesis
  proof (cases r1)
    case (Inl e)
    have "r = Inl e"
      using 1 Inl by (simp add: r_def configure_l3_run en_def)
    moreover have "xs = en # ?I"
      unfolding xs_def using 1 Inl t1
      by (intro events_ofI) (simp add: configure_l3_run en_def)
    ultimately show ?thesis using I by (rule no_ipdb)
  next
    case i1: (Inr u1)
    obtain r2 w2 where 2: "call env (Interface ifn) w1 = (r2, w2)"
      by (cases "call env (Interface ifn) w1")
    have t2: "trace w2 = trace w @ en # ?I @ [Interface ifn]"
      using 2 t1 by (auto simp: call_def emit_def split: option.splits)
    show ?thesis
    proof (cases r2)
      case (Inl e)
      have "r = Inl e"
        using 1 i1 2 Inl by (simp add: r_def configure_l3_run en_def)
      moreover have "xs = en # ?I @ [Interface ifn, IpdbRelease]"
        unfolding xs_def using 1 i1 2 Inl t2
        by (intro events_ofI) (simp add: configure_l3_run en_def emit_def)
      ultimately show ?thesis using I by (rule no_iface)
    next
      case i2: (Inr u2)
      let ?M = "events_of (address_pass cf env ns (subnets vd)) w2"
      obtain r3 w3 where 3: "address_pass cf env ns (subnets vd) w2 = (r3, w3)"
        by (cases "address_pass cf env ns (subnets vd) w2")
      have t3: "trace w3 = trace w @ en # ?I @ Interface ifn # ?M"
        using grows_trace [of "address_pass cf env ns (subnets vd)" w2] 3 t2 by simp
      show ?thesis
      proof (cases r3)
        case (Inl e)
        have "r = Inl e"
          using 1 i1 2 i2 3 Inl by (simp add: r_def configure_l3_run en_def)
        moreover have "fst (address_pass cf env ns (subnets vd) w2) = Inl e"
          using 3 Inl by simp
        moreover have "xs = en # ?I @ Interface ifn # ?M @ [IpdbRelease]"
          unfolding xs_def using 1 i1 2 i2 3 Inl t3
          by (intro events_ofI) (simp add: configure_l3_run en_def emit_def)
        ultimately show ?thesis using I addr_failed by blast
      next
        case i3: (Inr u3)
        have ok: "fst (address_pass cf env ns (subnets vd) w2) = Inr ()"
          using 3 i3 by simp
        obtain r4 w4 where 4: "call env (IfaceCommit ifn) w3 = (r4, w4)"
          by (cases "call env (IfaceCommit ifn) w3")
        have t4: "trace w4 = trace w @ en # ?I @ Interface ifn # ?M @ [IfaceCommit ifn]"
          using 4 t3 by (auto simp: call_def emit_def split: option.splits)
        show ?thesis
        proof (cases r4)
          case (Inl e)
          have "r = Inl e"
            using 1 i1 2 i2 3 i3 4 Inl by (simp add: r_def configure_l3_run en_def)
          moreover have "xs = en # ?I @ Interface ifn # ?M @ [IfaceCommit ifn, IpdbRelease]"
            unfolding xs_def using 1 i1 2 i2 3 i3 4 Inl t4
            by (intro events_ofI) (simp add: configure_l3_run en_def emit_def)
          ultimately show ?thesis using I ok commit_failed by blast
        next
          case i4: (Inr u4)
          let ?R = "events_of (route_pass env g (subnets vd)) w4"
          have t5: "trace (snd (route_pass env g (subnets vd) w4))
                      = trace w @ en # ?I @ Interface ifn # ?M @ IfaceCommit ifn # ?R"
            using grows_trace [of "route_pass env g (subnets vd)" w4] t4 by simp
          have "r = fst (route_pass env g (subnets vd) w4)"
            using 1 i1 2 i2 3 i3 4 i4 by (simp add: r_def configure_l3_run en_def)
          moreover have "xs = en # ?I @ Interface ifn # ?M @ IfaceCommit ifn # ?R @ [IpdbRelease]"
            unfolding xs_def using 1 i1 2 i2 3 i3 4 i4 t5
            by (intro events_ofI) (simp add: configure_l3_run en_def emit_def)
          ultimately show ?thesis using I ok t4 routes by blast
        qed
      qed
    qed
  qed
qed

lemma filter_none:
  "list_all k xs \<Longrightarrow> (\<And>e. k e \<Longrightarrow> \<not> p e) \<Longrightarrow> filter p xs = []"
  by (auto simp: filter_empty_conv list_all_iff)

lemma all_before_none: "list_all (\<lambda>e. \<not> q e) xs \<Longrightarrow> all_before p q xs"
  using all_before_append [of q xs p "[]"] by simp

lemma ipdb_kind_plain:
  "ipdb_kind e \<Longrightarrow> \<not> is_enable e \<and> \<not> is_add_ip e \<and> \<not> is_v6_add e \<and> \<not> is_route_add e \<and> \<not> is_default_add e"
  by (cases e) simp_all

lemma route_kind_plain:
  "route_kind e \<Longrightarrow> \<not> is_enable e \<and> \<not> is_add_ip e \<and> \<not> is_v6_add e"
  by (cases e) simp_all

lemma address_kind_plain:
  "enable_kind e \<or> is_add_ip e \<Longrightarrow> \<not> is_route_add e \<and> \<not> is_default_add e"
  by (cases e) simp_all

lemma address_pass_plain:
  "list_all (\<lambda>e. \<not> is_route_add e \<and> \<not> is_default_add e)
     (events_of (address_pass cf env ns ss) w)"
  using emitsD [OF emits_address_pass, of cf env ns ss w] address_kind_plain
  by (auto simp: list_all_iff)

lemma route_pass_plain:
  "list_all (\<lambda>e. \<not> is_enable e \<and> \<not> is_add_ip e \<and> \<not> is_v6_add e)
     (events_of (route_pass env g ss) w)"
  using emitsD [OF emits_route_pass, of env g ss w] route_kind_plain
  by (auto simp: list_all_iff)

lemma configure_l3_entered_le:
  "length (filter is_enable (events_of (configure_l3 cf env vd ifn ns g) w))
     \<le> length (filter (\<lambda>s. version (cidr s) = 6) (subnets vd))"
proof (cases rule: configure_l3_cases [of cf env vd ifn ns g w])
  case (no_ipdb I e)
  then show ?thesis using ipdb_kind_plain by (simp add: filter_none [of ipdb_kind])
next
  case (no_iface I e)
  then show ?thesis using ipdb_kind_plain by (simp add: filter_none [of ipdb_kind])
next
  case (addr_failed I wa e)
  then show ?thesis
    using ipdb_kind_plain address_pass_entered_le [of cf env ns "subnets vd" wa]
    by (simp add: filter_none [of ipdb_kind])
next
  case (commit_failed I wa e)
  then show ?thesis
    using ipdb_kind_plain address_pass_entered_le [of cf env ns "subnets vd" wa]
    by (simp add: filter_none [of ipdb_kind])
next
  case (routes I wa wb)
  have "filter is_enable (events_of (route_pass env g (subnets vd)) wb) = []"
    using route_pass_plain [of env g "subnets vd" wb] by (auto simp: filter_empty_conv list_all_iff)
  then show ?thesis
    using routes ipdb_kind_plain address_pass_entered_le [of cf env ns "subnets vd" wa]
    by (simp add: filter_none [of ipdb_kind])
qed

lemma configure_l3_entered_eq:
  assumes "fst (configure_l3 cf env vd ifn ns g w) = Inr ()"
  shows "length (filter is_enable (events_of (configure_l3 cf env vd ifn ns g) w))
           = length (filter (\<lambda>s. version (cidr s) = 6) (subnets vd))"
proof (cases rule: configure_l3_cases [of cf env vd ifn ns g w])
  case (routes I wa wb)
  have "filter is_enable (events_of (route_pass env g (subnets vd)) wb) = []"
    using route_pass_plain [of env g "subnets vd" wb] by (auto simp: filter_empty_conv list_all_iff)
  then show ?thesis
    using routes ipdb_kind_plain address_pass_entered_eq [of cf env ns "subnets vd" wa]
    by (simp add: filter_none [of ipdb_kind])
qed (use assms in simp_all)

lemma configure_l3_preceded:
  "preceded is_enable is_v6_add (events_of (configure_l3 cf env vd ifn ns g) w)"
proof -
  let ?M = "\<lambda>wa. events_of (address_pass cf env ns (subnets vd)) wa"
  have shape: "preceded is_enable is_v6_add (A @ ?M wa @ B)"
    if "list_all (\<lambda>e. \<not> is_v6_add e) A" and "list_all (\<lambda>e. \<not> is_v6_add e) B" for A B wa
  proof (intro preceded_append)
    show "preceded is_enable is_v6_add A" using that(1) by (rule preceded_none)
    show "preceded is_enable is_v6_add (?M wa)" by (rule address_pass_preceded)
    show "preceded is_enable is_v6_add B" using that(2) by (rule preceded_none)
  qed
  have plain: "list_all (\<lambda>e. \<not> is_v6_add e) (EnterConfigureL3 vd ifn ns g # I @ [Interface ifn])"
    if "list_all ipdb_kind I" for I
    using that ipdb_kind_plain by (auto simp: list_all_iff)
  show ?thesis
  proof (cases rule: configure_l3_cases [of cf env vd ifn ns g w])
    case (no_ipdb I e)
    then show ?thesis
      using ipdb_kind_plain by (intro preceded_none) (auto simp: list_all_iff)
  next
    case (no_iface I e)
    then show ?thesis
      using ipdb_kind_plain by (intro preceded_none) (auto simp: list_all_iff)
  next
    case (addr_failed I wa e)
    then show ?thesis
      using shape [OF plain, of I "[IpdbRelease]" wa] by simp
  next
    case (commit_failed I wa e)
    then show ?thesis
      using shape [OF plain, of I "[IfaceCommit ifn, IpdbRelease]" wa] by simp
  next
    case (routes I wa wb)
    have "list_all (\<lambda>e. \<not> is_v6_add e)
            (IfaceCommit ifn # events_of (route_pass env g (subnets vd)) wb @ [IpdbRelease])"
      using route_pass_plain [of env g "subnets vd" wb] by (auto simp: list_all_iff)
    then show ?thesis
      using routes shape [OF plain, of I _ wa] by simp
  qed
qed

lemma configure_l3_all_before:
  "all_before is_add_ip is_route_add (events_of (configure_l3 cf env vd ifn ns g) w)"
proof (cases rule: configure_l3_cases [of cf env vd ifn ns g w])
  case (no_ipdb I e)
  then show ?thesis
    using ipdb_kind_plain by (intro all_before_none) (auto simp: list_all_iff)
next
  case (no_iface I e)
  then show ?thesis
    using ipdb_kind_plain by (intro all_before_none) (auto simp: list_all_iff)
next
  case (addr_failed I wa e)
  then show ?thesis
    using ipdb_kind_plain address_pass_plain [of cf env ns "subnets vd" wa]
    by (intro all_before_none) (auto simp: list_all_iff)
next
  case (commit_failed I wa e)
  then show ?thesis
    using ipdb_kind_plain address_pass_plain [of cf env ns "subnets vd" wa]
    by (intro all_before_none) (auto simp: list_all_iff)
next
  case (routes I wa wb)
  let ?A = "EnterConfigureL3 vd ifn ns g # I @ Interface ifn #
              events_of (address_pass cf env ns (subnets vd)) wa @ [IfaceCommit ifn]"
  let ?B = "events_of (route_pass env g (subnets vd)) wb @ [IpdbRelease]"
  have a: "list_all (\<lambda>e. \<not> is_route_add e) ?A"
    using routes(2) ipdb_kind_plain address_pass_plain [of cf env ns "subnets vd" wa]
    by (auto simp: list_all_iff)
  have b: "list_all (\<lambda>e. \<not> is_add_ip e) ?B"
    using route_pass_plain [of env g "subnets vd" wb] by (auto simp: list_all_iff)
  have "events_of (configure_l3 cf env vd ifn ns g) w = ?A @ ?B"
    using routes(4) by simp
  then show ?thesis
    using all_before_append [OF a b] by simp
qed

lemma configure_l3_addresses_complete:
  assumes "list_ex is_route_add (events_of (configure_l3 cf env vd ifn ns g) w)"
  shows "filter is_add_ip (events_of (configure_l3 cf env vd ifn ns g) w) = address_events (subnets vd)
       \<and> IfaceCommit ifn \<in> set (events_of (configure_l3 cf env vd ifn ns g) w)"
proof (cases rule: configure_l3_cases [of cf env vd ifn ns g w])
  case (no_ipdb I e)
  then show ?thesis
    using assms ipdb_kind_plain by (auto simp: list_ex_iff list_all_iff)
next
  case (no_iface I e)
  then show ?thesis
    using assms ipdb_kind_plain by (auto simp: list_ex_iff list_all_iff)
next
  case (addr_failed I wa e)
  then show ?thesis
    using assms ipdb_kind_plain address_pass_plain [of cf env ns "subnets vd" wa]
    by (auto simp: list_ex_iff list_all_iff)
next
  case (commit_failed I wa e)
  then show ?thesis
    using assms ipdb_kind_plain address_pass_plain [of cf env ns "subnets vd" wa]
    by (auto simp: list_ex_iff list_all_iff)
next
  case (routes I wa wb)
  have "filter is_add_ip (events_of (route_pass env g (subnets vd)) wb) = []"
    using route_pass_plain [of env g "subnets vd" wb] by (auto simp: filter_empty_conv list_all_iff)
  then show ?thesis
    using routes ipdb_kind_plain address_pass_success [of cf env ns "subnets vd" wa]
    by (simp add: filter_none [of ipdb_kind])
qed

section \<open>The route pass and the runs of connect\<close>

lemma add_routes_kind:
  "emits (\<lambda>e. \<exists>gw c. e = RoutesAdd gw (Dst c)) (add_routes env rs)"
  by (induction rs) (auto intro!: emits_bind emits_call)

lemma add_routes_no_default:
  "filter is_default_add (events_of (add_routes env rs) w) = []"
  using emitsD [OF add_routes_kind, of env rs w]
  by (auto simp: filter_empty_conv list_all_iff)

lemma add_default_route_run:
  "add_default_route env gw w =
     (case env (trace w) (RoutesAdd gw Default) of
        None \<Rightarrow> (Inr (), emit (RoutesAdd gw Default) w)
      | Some e \<Rightarrow>
          if e = NetlinkError EEXIST
          then (Inr (), emit (Log Debug ''Default route already exists in capsule/container for vif=%s. Did not overwrite with requested gateway=%s'' [gw])
                          (emit (RoutesAdd gw Default) w))
          else (Inl e, emit (RoutesAdd gw Default) w))"
  by (auto simp: add_default_route_def run_simps split: option.splits error.splits)

lemma add_default_route_events:
  "events_of (add_default_route env gw) w =
     RoutesAdd gw Default #
     (if env (trace w) (RoutesAdd gw Default) = Some (NetlinkError EEXIST)
      then [Log Debug ''Default route already exists in capsule/container for vif=%s. Did not overwrite with requested gateway=%s'' [gw]] else [])"
  by (auto simp: events_of_def add_default_route_run emit_def split: option.splits)

lemma subnet_routes_events:
  "events_of (subnet_routes env g s) w =
     events_of (add_routes env (routes s)) w @
     (case add_routes env (routes s) w of
        (Inl e, w1) \<Rightarrow> []
      | (Inr u, w1) \<Rightarrow>
          (case gateway s of
             Some gw \<Rightarrow> if g then events_of (add_default_route env gw) w1 else []
           | None \<Rightarrow> []))"
proof -
  have "grows (case gateway s of
                 Some gw \<Rightarrow> if g then add_default_route env gw else return ()
               | None \<Rightarrow> return ())"
    by (simp split: option.splits)
  then show ?thesis
    unfolding subnet_routes_def
    by (subst events_of_bind) (auto split: prod.splits sum.splits option.splits)
qed

lemma subnet_routes_defaults_le:
  "length (filter is_default_add (events_of (subnet_routes env g s) w))
     \<le> (if g \<and> gateway s \<noteq> None then 1 else 0)"
  by (auto simp: subnet_routes_events add_routes_no_default add_default_route_events
      split: prod.splits sum.splits option.splits)

lemma subnet_routes_defaults_eq:
  assumes "fst (subnet_routes env g s w) = Inr ()"
  shows "length (filter is_default_add (events_of (subnet_routes env g s) w))
           = (if g \<and> gateway s \<noteq> None then 1 else 0)"
proof -
  obtain w1 where 1: "add_routes env (routes s) w = (Inr (), w1)"
    using bind_success [OF assms [unfolded subnet_routes_def]] by auto
  show ?thesis
    using 1
    by (auto simp: subnet_routes_events add_routes_no_default add_default_route_events
        split: option.splits)
qed

lemma route_pass_events:
  "events_of (route_pass env g (s # ss)) w =
     events_of (subnet_routes env g s) w @
     (case subnet_routes env g s w of
        (Inl e, w1) \<Rightarrow> []
      | (Inr u, w1) \<Rightarrow> events_of (route_pass env g ss) w1)"
  by (simp add: events_of_bind)

lemma route_pass_defaults_le:
  "length (filter is_default_add (events_of (route_pass env g ss) w))
     \<le> length (filter (\<lambda>s. g \<and> gateway s \<noteq> None) ss)"
proof (induction ss arbitrary: w)
  case Nil
  then show ?case by simp
next
  case (Cons s ss)
  obtain r w1 where 1: "subnet_routes env g s w = (r, w1)"
    by (cases "subnet_routes env g s w")
  have 2: "length (filter is_default_add (events_of (subnet_routes env g s) w))
             \<le> (if g \<and> gateway s \<noteq> None then 1 else 0)"
    by (rule subnet_routes_defaults_le)
  show ?case
  proof (cases r)
    case (Inl e)
    then show ?thesis
      unfolding route_pass_events using 1 2 by (cases g) (simp_all split: if_splits)
  next
    case (Inr u)
    then show ?thesis
      unfolding route_pass_events using 1 2 Cons.IH [of w1] by (cases g) (simp_all split: if_splits)
  qed
qed

lemma route_pass_defaults_eq:
  "fst (route_pass env g ss w) = Inr () \<Longrightarrow>
   length (filter is_default_add (events_of (route_pass env g ss) w))
     = length (filter (\<lambda>s. g \<and> gateway s \<noteq> None) ss)"
proof (induction ss arbitrary: w)
  case Nil
  then show ?case by simp
next
  case (Cons s ss)
  obtain w1 where 1: "subnet_routes env g s w = (Inr (), w1)"
    and 2: "fst (route_pass env g ss w1) = Inr ()"
    using bind_success [OF Cons.prems [simplified]] by auto
  have 3: "fst (subnet_routes env g s w) = Inr ()"
    using 1 by simp
  show ?case
    unfolding route_pass_events
    using 1 subnet_routes_defaults_eq [OF 3] Cons.IH [OF 2] by simp
qed

lemma configure_l3_defaults_le:
  "length (filter is_default_add (events_of (configure_l3 cf env vd ifn ns g) w))
     \<le> (if g then length (filter (\<lambda>s. gateway s \<noteq> None) (subnets vd)) else 0)"
proof (cases rule: configure_l3_cases [of cf env vd ifn ns g w])
  case (no_ipdb I e)
  then show ?thesis using ipdb_kind_plain by (simp add: filter_none [of ipdb_kind])
next
  case (no_iface I e)
  then show ?thesis using ipdb_kind_plain by (simp add: filter_none [of ipdb_kind])
next
  case (addr_failed I wa e)
  have "filter is_default_add (events_of (address_pass cf env ns (subnets vd)) wa) = []"
    using address_pass_plain [of cf env ns "subnets vd" wa]
    by (auto simp: filter_empty_conv list_all_iff)
  then show ?thesis
    using addr_failed ipdb_kind_plain by (simp add: filter_none [of ipdb_kind])
next
  case (commit_failed I wa e)
  have "filter is_default_add (events_of (address_pass cf env ns (subnets vd)) wa) = []"
    using address_pass_plain [of cf env ns "subnets vd" wa]
    by (auto simp: filter_empty_conv list_all_iff)
  then show ?thesis
    using commit_failed ipdb_kind_plain by (simp add: filter_none [of ipdb_kind])
next
  case (routes I wa wb)
  have "filter is_default_add (events_of (address_pass cf env ns (subnets vd)) wa) = []"
    using address_pass_plain [of cf env ns "subnets vd" wa]
    by (auto simp: filter_empty_conv list_all_iff)
  then show ?thesis
    using routes ipdb_kind_plain route_pass_defaults_le [of env g "subnets vd" wb]
    by (cases g) (simp_all add: filter_none [of ipdb_kind])
qed

lemma configure_l3_defaults_eq:
  assumes "fst (configure_l3 cf env vd ifn ns g w) = Inr ()"
  shows "length (filter is_default_add (events_of (configure_l3 cf env vd ifn ns g) w))
           = (if g then length (filter (\<lambda>s. gateway s \<noteq> None) (subnets vd)) else 0)"
proof (cases rule: configure_l3_cases [of cf env vd ifn ns g w])
  case (routes I wa wb)
  have "filter is_default_add (events_of (address_pass cf env ns (subnets vd)) wa) = []"
    using address_pass_plain [of cf env ns "subnets vd" wa]
    by (auto simp: filter_empty_conv list_all_iff)
  then show ?thesis
    using routes assms ipdb_kind_plain route_pass_defaults_eq [of env g "subnets vd" wb]
    by (cases g) (simp_all add: filter_none [of ipdb_kind])
qed (use assms in simp_all)

lemma l3_event_of_default_add: "is_default_add e \<Longrightarrow> is_l3_event e"
  by (cases e) simp_all

lemma need_no_default:
  "filter is_default_add (events_of (need_configure_l3 cf v) w) = []"
  using events_of_need_no_l3 [of _ cf v w] l3_event_of_default_add
  by (auto simp: filter_empty_conv)

lemma connect_run:
  "connect cf env v ii ifn ns g cid w =
     (case convert_netns cf ns of
        Inl e \<Rightarrow> (Inl e, emit (ConvertNetns ns) w)
      | Inr ns' \<Rightarrow>
         (case get_binding_driver cf env v (emit (ConvertNetns ns) w) of
            (Inl e, w1) \<Rightarrow> (Inl e, w1)
          | (Inr d, w1) \<Rightarrow>
             (case call env (Plug v ii) w1 of
                (Inl e, w2) \<Rightarrow> (Inl e, w2)
              | (Inr u, w2) \<Rightarrow>
                 (case call env (DriverConnect d v ifn ns' cid) w2 of
                    (Inl e, w3) \<Rightarrow> (Inl e, w3)
                  | (Inr u, w3) \<Rightarrow>
                     (case need_configure_l3 cf v w3 of
                        (Inl e, w4) \<Rightarrow> (Inl e, w4)
                      | (Inr need, w4) \<Rightarrow>
                         if need
                         then (case osvif_vif_to_dict cf v of
                                 Inl e \<Rightarrow> (Inl e, emit (OsvifVifToDict v) w4)
                               | Inr vd \<Rightarrow>
                                   configure_l3 cf env vd ifn ns' g (emit (OsvifVifToDict v) w4))
                         else (Inr (), w4))))))"
  by (simp add: connect_def bind_def convert_def to_dict_def return_def
      split: prod.splits sum.splits)

lemma connect_cases
  [case_names no_netns no_driver no_plug no_connect no_policy not_needed no_dict configured]:
  fixes cf env v ii ifn ns g cid w
  defines "xs \<equiv> events_of (connect cf env v ii ifn ns g cid) w"
    and "r \<equiv> fst (connect cf env v ii ifn ns g cid w)"
    and "c \<equiv> ConvertNetns ns"
    and "dm \<equiv> DriverManager BINDING_NAMESPACE (vif_type v)"
  obtains
    (no_netns) e where "convert_netns cf ns = Inl e" "r = Inl e" "xs = [c]"
  | (no_driver) ns' e where "convert_netns cf ns = Inr ns'" "r = Inl e" "xs = [c, dm]"
      "fst (get_binding_driver cf env v (emit c w)) = Inl e"
  | (no_plug) ns' e where "convert_netns cf ns = Inr ns'" "r = Inl e" "xs = [c, dm, Plug v ii]"
      "env (trace w @ [c, dm]) (Plug v ii) = Some e"
  | (no_connect) ns' e where "convert_netns cf ns = Inr ns'" "r = Inl e"
      "xs = [c, dm, Plug v ii, DriverConnect (vif_type v) v ifn ns' cid]"
      "env (trace w @ [c, dm, Plug v ii]) (DriverConnect (vif_type v) v ifn ns' cid) = Some e"
  | (no_policy) ns' e w' where "convert_netns cf ns = Inr ns'" "r = Inl e"
      "fst (need_configure_l3 cf v w') = Inl e"
      "xs = [c, dm, Plug v ii, DriverConnect (vif_type v) v ifn ns' cid]
             @ events_of (need_configure_l3 cf v) w'"
  | (not_needed) ns' w' where "convert_netns cf ns = Inr ns'" "r = Inr ()"
      "fst (need_configure_l3 cf v w') = Inr False"
      "xs = [c, dm, Plug v ii, DriverConnect (vif_type v) v ifn ns' cid]
             @ events_of (need_configure_l3 cf v) w'"
  | (no_dict) ns' e w' where "convert_netns cf ns = Inr ns'" "r = Inl e"
      "fst (need_configure_l3 cf v w') = Inr True" "osvif_vif_to_dict cf v = Inl e"
      "xs = [c, dm, Plug v ii, DriverConnect (vif_type v) v ifn ns' cid]
             @ events_of (need_configure_l3 cf v) w' @ [OsvifVifToDict v]"
  | (configured) ns' vd w' w'' where "convert_netns cf ns = Inr ns'"
      "fst (need_configure_l3 cf v w') = Inr True" "osvif_vif_to_dict cf v = Inr vd"
      "r = fst (configure_l3 cf env vd ifn ns' g w'')"
      "xs = [c, dm, Plug v ii, DriverConnect (vif_type v) v ifn ns' cid]
             @ events_of (need_configure_l3 cf v) w' @ [OsvifVifToDict v]
             @ events_of (configure_l3 cf env vd ifn ns' g) w''"
proof -
  let ?w0 = "emit c w"
  show thesis
  proof (cases "convert_netns cf ns")
    case (Inl e)
    have "r = Inl e"
      using Inl by (simp add: r_def connect_run)
    moreover have "xs = [c]"
      unfolding xs_def using Inl
      by (intro events_ofI) (simp add: connect_run c_def emit_def)
    ultimately show ?thesis using Inl no_netns by blast
  next
    case n: (Inr ns')
    obtain r1 w1 where 1: "get_binding_driver cf env v ?w0 = (r1, w1)"
      by (cases "get_binding_driver cf env v ?w0")
    have t1: "trace w1 = trace w @ [c, dm]"
      using grows_trace [of "get_binding_driver cf env v" ?w0] 1
      by (simp add: emit_def dm_def)
    show ?thesis
    proof (cases r1)
      case (Inl e)
      have "r = Inl e"
        using n 1 Inl by (simp add: r_def connect_run c_def)
      moreover have "xs = [c, dm]"
        unfolding xs_def using n 1 Inl t1
        by (intro events_ofI) (simp add: connect_run c_def)
      moreover have "fst (get_binding_driver cf env v ?w0) = Inl e"
        using 1 Inl by simp
      ultimately show ?thesis using n no_driver by blast
    next
      case d: (Inr d)
      have dv: "d = vif_type v"
        using 1 d get_binding_driver_result by blast
      obtain r2 w2 where 2: "call env (Plug v ii) w1 = (r2, w2)"
        by (cases "call env (Plug v ii) w1")
      have t2: "trace w2 = trace w @ [c, dm, Plug v ii]"
        using 2 t1 by (auto simp: call_def emit_def split: option.splits)
      show ?thesis
      proof (cases r2)
        case (Inl e)
        have "r = Inl e"
          using n 1 d 2 Inl by (simp add: r_def connect_run c_def)
        moreover have "xs = [c, dm, Plug v ii]"
          unfolding xs_def using n 1 d 2 Inl t2
          by (intro events_ofI) (simp add: connect_run c_def)
        moreover have "env (trace w @ [c, dm]) (Plug v ii) = Some e"
          using 2 Inl t1 by (auto simp: call_def split: option.splits)
        ultimately show ?thesis using n no_plug by blast
      next
        case p: (Inr u2)
        let ?dc = "DriverConnect (vif_type v) v ifn ns' cid"
        obtain r3 w3 where 3: "call env ?dc w2 = (r3, w3)"
          by (cases "call env ?dc w2")
        have t3: "trace w3 = trace w @ [c, dm, Plug v ii, ?dc]"
          using 3 t2 by (auto simp: call_def emit_def split: option.splits)
        show ?thesis
        proof (cases r3)
          case (Inl e)
          have "r = Inl e"
            using n 1 d dv 2 p 3 Inl by (simp add: r_def connect_run c_def)
          moreover have "xs = [c, dm, Plug v ii, ?dc]"
            unfolding xs_def using n 1 d dv 2 p 3 Inl t3
            by (intro events_ofI) (simp add: connect_run c_def)
          moreover have "env (trace w @ [c, dm, Plug v ii]) ?dc = Some e"
            using 3 Inl t2 by (auto simp: call_def split: option.splits)
          ultimately show ?thesis using n no_connect by blast
        next
          case dc: (Inr u3)
          let ?N = "events_of (need_configure_l3 cf v) w3"
          obtain r4 w4 where 4: "need_configure_l3 cf v w3 = (r4, w4)"
            by (cases "need_configure_l3 cf v w3")
          have t4: "trace w4 = trace w @ [c, dm, Plug v ii, ?dc] @ ?N"
            using grows_trace [of "need_configure_l3 cf v" w3] 4 t3 by simp
          show ?thesis
          proof (cases r4)
            case (Inl e)
            have "r = Inl e"
              using n 1 d dv 2 p 3 dc 4 Inl by (simp add: r_def connect_run c_def)
            moreover have "xs = [c, dm, Plug v ii, ?dc] @ ?N"
              unfolding xs_def using n 1 d dv 2 p 3 dc 4 Inl t4
              by (intro events_ofI) (simp add: connect_run c_def)
            moreover have "fst (need_configure_l3 cf v w3) = Inl e"
              using 4 Inl by simp
            ultimately show ?thesis using n no_policy by blast
          next
            case need: (Inr need)
            show ?thesis
            proof (cases need)
              case False
              have "r = Inr ()"
                using n 1 d dv 2 p 3 dc 4 need False by (simp add: r_def connect_run c_def)
              moreover have "xs = [c, dm, Plug v ii, ?dc] @ ?N"
                unfolding xs_def using n 1 d dv 2 p 3 dc 4 need False t4
                by (intro events_ofI) (simp add: connect_run c_def)
              moreover have "fst (need_configure_l3 cf v w3) = Inr False"
                using 4 need False by simp
              ultimately show ?thesis using n not_needed by blast
            next
              case True
              have nd: "fst (need_configure_l3 cf v w3) = Inr True"
                using 4 need True by simp
              let ?w5 = "emit (OsvifVifToDict v) w4"
              have t5: "trace ?w5 = trace w @ [c, dm, Plug v ii, ?dc] @ ?N @ [OsvifVifToDict v]"
                using t4 by (simp add: emit_def)
              show ?thesis
              proof (cases "osvif_vif_to_dict cf v")
                case (Inl e)
                have "r = Inl e"
                  using n 1 d dv 2 p 3 dc 4 need True Inl by (simp add: r_def connect_run c_def)
                moreover have "xs = [c, dm, Plug v ii, ?dc] @ ?N @ [OsvifVifToDict v]"
                  unfolding xs_def using n 1 d dv 2 p 3 dc 4 need True Inl t5
                  by (intro events_ofI) (simp add: connect_run c_def)
                ultimately show ?thesis using n nd Inl no_dict by blast
              next
                case vd: (Inr vd)
                let ?L = "events_of (configure_l3 cf env vd ifn ns' g) ?w5"
                have t6: "trace (snd (configure_l3 cf env vd ifn ns' g ?w5))
                            = trace w @ [c, dm, Plug v ii, ?dc] @ ?N @ [OsvifVifToDict v] @ ?L"
                  using grows_trace [of "configure_l3 cf env vd ifn ns' g" ?w5] t5 by simp
                have "r = fst (configure_l3 cf env vd ifn ns' g ?w5)"
                  using n 1 d dv 2 p 3 dc 4 need True vd by (simp add: r_def connect_run c_def)
                moreover have "xs = [c, dm, Plug v ii, ?dc] @ ?N @ [OsvifVifToDict v] @ ?L"
                  unfolding xs_def using n 1 d dv 2 p 3 dc 4 need True vd t6
                  by (intro events_ofI) (simp add: connect_run c_def)
                ultimately show ?thesis using n nd vd configured by blast
              qed
            qed
          qed
        qed
      qed
    qed
  qed
qed

lemma need_events_no_l3:
  "list_all (\<lambda>e. \<not> is_l3_event e) (events_of (need_configure_l3 cf v) w)"
  using events_of_need_no_l3 [of _ cf v w] by (auto simp: list_all_iff)

lemma connect_userspace_no_l3:
  assumes "physnet v = Some pn"
    and "sriov_physnet_resource_mappings cf pn = Some r"
    and "sriov_resource_driver_mappings cf r = Some d"
    and "d \<in> set (USERSPACE_DRIVERS cf)"
  shows "list_all (\<lambda>e. \<not> is_l3_event e) (events_of (connect cf env v ii ifn ns g cid) w)"
proof -
  have n: "fst (need_configure_l3 cf v w') = Inr False" for w'
    using need_userspace [OF assms] .
  show ?thesis
  proof (cases rule: connect_cases
      [where cf = cf and env = env and v = v and ii = ii and ifn = ifn and ns = ns and g = g
         and cid = cid and w = w])
    case (no_dict ns' e w')
    then show ?thesis using n [of w'] by simp
  next
    case (configured ns' vd w' w'')
    then show ?thesis using n [of w'] by simp
  qed (simp_all add: need_events_no_l3)
qed

lemma connect_fails_when_need_fails:
  assumes "\<And>w'. \<exists>e. fst (need_configure_l3 cf v w') = Inl e"
  shows "(\<exists>e. fst (connect cf env v ii ifn ns g cid w) = Inl e)
       \<and> list_all (\<lambda>e. \<not> is_l3_event e) (events_of (connect cf env v ii ifn ns g cid) w)"
proof (cases rule: connect_cases
    [where cf = cf and env = env and v = v and ii = ii and ifn = ifn and ns = ns and g = g
       and cid = cid and w = w])
  case (not_needed ns' w')
  then show ?thesis using assms [of w'] by simp
next
  case (no_dict ns' e w')
  then show ?thesis using assms [of w'] by simp
next
  case (configured ns' vd w' w'')
  then show ?thesis using assms [of w'] by simp
qed (simp_all add: need_events_no_l3)

lemma connect_defaults_le:
  "length (filter is_default_add (events_of (connect cf env v ii ifn ns g cid) w))
     \<le> (case osvif_vif_to_dict cf v of
          Inl e \<Rightarrow> 0
        | Inr vd \<Rightarrow> if g then length (filter (\<lambda>s. gateway s \<noteq> None) (subnets vd)) else 0)"
proof (cases rule: connect_cases
    [where cf = cf and env = env and v = v and ii = ii and ifn = ifn and ns = ns and g = g
       and cid = cid and w = w])
  case (configured ns' vd w' w'')
  then show ?thesis
    using configure_l3_defaults_le [of cf env vd ifn ns' g w'']
    by (simp add: need_no_default)
qed (simp_all add: need_no_default)

section \<open>Failures of route additions\<close>

lemma handles_routesI:
  assumes "\<And>w i gw d e. i < length (events_of m w) \<Longrightarrow>
             env (trace w @ take i (events_of m w)) (RoutesAdd gw d) = Some e \<Longrightarrow>
             events_of m w ! i = RoutesAdd gw d \<Longrightarrow>
             (if tolerated d e
              then Suc i < length (events_of m w)
                   \<and> (\<exists>msg. events_of m w ! Suc i = Log Debug msg [gw])
              else fst (m w) = Inl e \<and> Suc i = length (events_of m w))"
  shows "handles_routes env m"
  unfolding handles_routes_def fails_at_def using assms by auto

lemma handles_routesD:
  assumes "handles_routes env m" and "i < length (events_of m w)"
    and "events_of m w ! i = RoutesAdd gw d"
    and "env (trace w @ take i (events_of m w)) (RoutesAdd gw d) = Some e"
  shows "if tolerated d e
         then Suc i < length (events_of m w)
              \<and> (\<exists>msg. events_of m w ! Suc i = Log Debug msg [gw])
         else fst (m w) = Inl e \<and> Suc i = length (events_of m w)"
proof -
  have "fails_at env w (events_of m w) i e"
    using assms(2-4) by (simp add: fails_at_def)
  then show ?thesis
    using assms(1,3) unfolding handles_routes_def by blast
qed

lemma handles_routes_none:
  assumes "\<And>w. list_all (\<lambda>e. \<not> is_route_add e) (events_of m w)"
  shows "handles_routes env m"
proof (rule handles_routesI)
  fix w i gw d e
  assume "i < length (events_of m w)" and "events_of m w ! i = RoutesAdd gw d"
  then have "is_route_add (events_of m w ! i)" and "events_of m w ! i \<in> set (events_of m w)"
    using nth_mem [of i "events_of m w"] by simp_all
  then have False using assms [of w] by (auto simp: list_all_iff)
  then show "if tolerated d e
         then Suc i < length (events_of m w)
              \<and> (\<exists>msg. events_of m w ! Suc i = Log Debug msg [gw])
         else fst (m w) = Inl e \<and> Suc i = length (events_of m w)" ..
qed

lemma handles_routes_return [simp]: "handles_routes env (return x)"
  by (rule handles_routes_none) simp

lemma handles_routes_bind:
  assumes m: "handles_routes env m" and f: "\<And>x. handles_routes env (f x)"
    and gm: "grows m" and gf: "\<And>x. grows (f x)"
  shows "handles_routes env (bind m f)"
proof (rule handles_routesI)
  fix w i gw d e
  let ?xs = "events_of (bind m f) w"
  let ?xs1 = "events_of m w"
  assume i: "i < length ?xs"
    and ev: "env (trace w @ take i ?xs) (RoutesAdd gw d) = Some e"
    and at: "?xs ! i = RoutesAdd gw d"
  obtain r1 w1 where mw: "m w = (r1, w1)" by (cases "m w")
  have t1: "trace w1 = trace w @ ?xs1"
    using grows_trace [OF gm, of w] mw by simp
  show "if tolerated d e
        then Suc i < length ?xs \<and> (\<exists>msg. ?xs ! Suc i = Log Debug msg [gw])
        else fst (bind m f w) = Inl e \<and> Suc i = length ?xs"
  proof (cases r1)
    case (Inl e1)
    have xs: "?xs = ?xs1"
      using mw Inl by (simp add: events_of_bind [OF gm gf])
    have r: "fst (bind m f w) = Inl e1" "fst (m w) = Inl e1"
      using mw Inl by (simp_all add: bind_def)
    show ?thesis
      using handles_routesD [OF m, of i w gw d e] i ev at unfolding xs r
      by (simp split: if_splits)
  next
    case (Inr x)
    let ?xs2 = "events_of (f x) w1"
    have xs: "?xs = ?xs1 @ ?xs2"
      using mw Inr by (simp add: events_of_bind [OF gm gf])
    have r: "fst (bind m f w) = fst (f x w1)"
      using mw Inr by (simp add: bind_def)
    show ?thesis
    proof (cases "i < length ?xs1")
      case True
      have a: "?xs1 ! i = RoutesAdd gw d"
        using at True by (simp add: xs nth_append)
      have b: "env (trace w @ take i ?xs1) (RoutesAdd gw d) = Some e"
        using ev True by (simp add: xs)
      have h: "if tolerated d e
               then Suc i < length ?xs1 \<and> (\<exists>msg. ?xs1 ! Suc i = Log Debug msg [gw])
               else fst (m w) = Inl e \<and> Suc i = length ?xs1"
        using handles_routesD [OF m True a b] .
      show ?thesis
      proof (cases "tolerated d e")
        case t: True
        then show ?thesis using h by (auto simp: xs nth_append)
      next
        case False
        then have "fst (m w) = Inl e" using h by simp
        then show ?thesis using mw Inr by simp
      qed
    next
      case False
      let ?j = "i - length ?xs1"
      have j: "?j < length ?xs2"
        using i False by (simp add: xs)
      have a: "?xs2 ! ?j = RoutesAdd gw d"
        using at False by (simp add: xs nth_append)
      have "trace w @ take i ?xs = trace w1 @ take ?j ?xs2"
        using False t1 by (simp add: xs)
      then have b: "env (trace w1 @ take ?j ?xs2) (RoutesAdd gw d) = Some e"
        using ev by simp
      have h: "if tolerated d e
               then Suc ?j < length ?xs2 \<and> (\<exists>msg. ?xs2 ! Suc ?j = Log Debug msg [gw])
               else fst (f x w1) = Inl e \<and> Suc ?j = length ?xs2"
        using handles_routesD [OF f j a b] .
      have s: "Suc i - length ?xs1 = Suc ?j"
        using False by simp
      show ?thesis
      proof (cases "tolerated d e")
        case True
        then show ?thesis using h False s by (auto simp: xs nth_append)
      next
        case nt: False
        then show ?thesis using h False r by (auto simp: xs)
      qed
    qed
  qed
qed

lemma handles_routes_call_dst: "handles_routes env (call env (RoutesAdd gw (Dst c)))"
proof (rule handles_routesI)
  fix w i gw' d e
  let ?m = "call env (RoutesAdd gw (Dst c))"
  assume "i < length (events_of ?m w)"
    and "env (trace w @ take i (events_of ?m w)) (RoutesAdd gw' d) = Some e"
    and "events_of ?m w ! i = RoutesAdd gw' d"
  then show "if tolerated d e
        then Suc i < length (events_of ?m w) \<and> (\<exists>msg. events_of ?m w ! Suc i = Log Debug msg [gw'])
        else fst (?m w) = Inl e \<and> Suc i = length (events_of ?m w)"
    by (auto simp: tolerated_def run_simps(5))
qed

lemma handles_routes_add_routes: "handles_routes env (add_routes env rs)"
  by (induction rs) (auto intro!: handles_routes_bind handles_routes_call_dst)

lemma handles_routes_add_default_route: "handles_routes env (add_default_route env gw)"
proof (rule handles_routesI)
  fix w i gw' d e
  let ?m = "add_default_route env gw"
  assume "i < length (events_of ?m w)"
    and "env (trace w @ take i (events_of ?m w)) (RoutesAdd gw' d) = Some e"
    and "events_of ?m w ! i = RoutesAdd gw' d"
  then show "if tolerated d e
        then Suc i < length (events_of ?m w) \<and> (\<exists>msg. events_of ?m w ! Suc i = Log Debug msg [gw'])
        else fst (?m w) = Inl e \<and> Suc i = length (events_of ?m w)"
    by (cases i) (auto simp: tolerated_def add_default_route_events add_default_route_run
        split: if_splits)
qed

lemma handles_routes_subnet_routes: "handles_routes env (subnet_routes env g s)"
  unfolding subnet_routes_def
  by (auto intro!: handles_routes_bind handles_routes_add_routes handles_routes_add_default_route
      split: option.splits)

lemma handles_routes_route_pass: "handles_routes env (route_pass env g ss)"
  by (induction ss) (auto intro!: handles_routes_bind handles_routes_subnet_routes)

lemma configure_l3_route_failure:
  fixes cf env vd ifn ns g w
  defines "xs \<equiv> events_of (configure_l3 cf env vd ifn ns g) w"
  assumes i: "i < length xs" and at: "xs ! i = RoutesAdd gw d"
    and ev: "env (trace w @ take i xs) (RoutesAdd gw d) = Some e"
  shows "if tolerated d e
         then Suc i < length xs \<and> (\<exists>msg. xs ! Suc i = Log Debug msg [gw])
         else fst (configure_l3 cf env vd ifn ns g w) = Inl e \<and> xs = take (Suc i) xs @ [IpdbRelease]"
proof -
  have mem: "RoutesAdd gw d \<in> set xs"
    using i at nth_mem [of i xs] by simp
  show ?thesis
  proof (cases rule: configure_l3_cases [of cf env vd ifn ns g w])
    case (no_ipdb I e')
    then show ?thesis
      using mem ipdb_kind_plain unfolding xs_def by (auto simp: list_all_iff)
  next
    case (no_iface I e')
    then show ?thesis
      using mem ipdb_kind_plain unfolding xs_def by (auto simp: list_all_iff)
  next
    case (addr_failed I wa e')
    then show ?thesis
      using mem ipdb_kind_plain address_pass_plain [of cf env ns "subnets vd" wa]
      unfolding xs_def by (auto simp: list_all_iff)
  next
    case (commit_failed I wa e')
    then show ?thesis
      using mem ipdb_kind_plain address_pass_plain [of cf env ns "subnets vd" wa]
      unfolding xs_def by (auto simp: list_all_iff)
  next
    case (routes I wa wb)
    define P where "P = EnterConfigureL3 vd ifn ns g # I @ Interface ifn #
                events_of (address_pass cf env ns (subnets vd)) wa @ [IfaceCommit ifn]"
    define R where "R = events_of (route_pass env g (subnets vd)) wb"
    define j where "j = i - length P"
    have xs: "xs = P @ R @ [IpdbRelease]"
      using routes(4) by (simp add: xs_def P_def R_def)
    have twb: "trace wb = trace w @ P"
      using routes(5) by (simp add: P_def)
    have P: "list_all (\<lambda>e. \<not> is_route_add e) P"
      using routes(2) ipdb_kind_plain address_pass_plain [of cf env ns "subnets vd" wa]
      by (auto simp: list_all_iff P_def)
    have ge: "\<not> i < length P"
    proof
      assume l: "i < length P"
      have "\<not> is_route_add (P ! i)"
        using P l unfolding list_all_length by blast
      moreover have "xs ! i = P ! i"
        unfolding xs using l by (simp add: nth_append)
      ultimately show False using at by (metis is_route_add.simps(1))
    qed
    have i_eq: "i = length P + j"
      using ge by (simp add: j_def)
    have lt: "j < length R"
    proof (rule ccontr)
      assume "\<not> j < length R"
      then have "j = length R"
        using i unfolding xs i_eq by simp
      then have "xs ! i = IpdbRelease"
        unfolding xs i_eq by (simp add: nth_append)
      then show False using at by simp
    qed
    have a: "R ! j = RoutesAdd gw d"
      using at lt unfolding xs i_eq by (simp add: nth_append)
    have "trace w @ take i xs = trace wb @ take j R"
      using lt twb unfolding xs i_eq by simp
    then have b: "env (trace wb @ take j R) (RoutesAdd gw d) = Some e"
      using ev by simp
    have h: "if tolerated d e
             then Suc j < length R \<and> (\<exists>msg. R ! Suc j = Log Debug msg [gw])
             else fst (route_pass env g (subnets vd) wb) = Inl e \<and> Suc j = length R"
      using handles_routesD [OF handles_routes_route_pass, of j env g "subnets vd" wb gw d e]
        lt a b unfolding R_def by blast
    show ?thesis
    proof (cases "tolerated d e")
      case True
      then have 1: "Suc j < length R" and 2: "\<exists>msg. R ! Suc j = Log Debug msg [gw]"
        using h by simp_all
      have "Suc i < length xs"
        using 1 unfolding xs i_eq by simp
      moreover have "xs ! Suc i = R ! Suc j"
        using 1 unfolding xs i_eq by (simp add: nth_append)
      ultimately show ?thesis using True 2 by simp
    next
      case False
      then have 1: "fst (route_pass env g (subnets vd) wb) = Inl e" and 2: "Suc j = length R"
        using h by simp_all
      have "take (Suc i) xs = P @ R"
        using 2 unfolding xs i_eq by simp
      then have "xs = take (Suc i) xs @ [IpdbRelease]"
        using xs by simp
      then show ?thesis using False 1 routes(1) by simp
    qed
  qed
qed

lemma add_default_route_swallows:
  "env (trace w) (RoutesAdd gw Default) = Some (NetlinkError EEXIST) \<Longrightarrow>
   fst (add_default_route env gw w) = Inr ()"
  by (simp add: add_default_route_run)

lemma run_default_exists:
  "events_of (configure_l3 example_conf default_exists dict_dual ''eth0'' container_ns True) host_world
     = [EnterConfigureL3 dict_dual ''eth0'' container_ns True,
        NetNS ''/proc/4242/ns/net'', IPDB container_ns, Interface ''eth0'',
        AddIp ''10.0.0.5'' 24 4,
        EnterEnableIpv6 container_ns,
        ConvertNetns (Some ''/proc/self/ns/net''), OpenFile (Some ''/proc/self/ns/net'') ''r'',
        SetNs (NsPath container_ns),
        ConvertNetns (Some ''/proc/sys/net/ipv6/conf/all/disable_ipv6''),
        OpenFile (Some ''/proc/sys/net/ipv6/conf/all/disable_ipv6'') ''w'',
        WriteFile (Some ''/proc/sys/net/ipv6/conf/all/disable_ipv6'') ''0'',
        SetNs (NsFd ''host''),
        AddIp ''fd00::5'' 64 6, IfaceCommit ''eth0'',
        RoutesAdd ''10.0.0.1'' (Dst ''10.1.0.0/16''),
        RoutesAdd ''10.0.0.1'' Default,
        Log Debug ''Default route already exists in capsule/container for vif=%s. Did not overwrite with requested gateway=%s'' [''10.0.0.1''],
        RoutesAdd ''fd00::1'' Default,
        Log Debug ''Default route already exists in capsule/container for vif=%s. Did not overwrite with requested gateway=%s'' [''fd00::1''],
        IpdbRelease]"
  by (simp add: run_simps model_defs example_defs dict_dual_def default_exists_def)


lemma run_route_conflict:
  "events_of (configure_l3 example_conf route_conflict dict_dual ''eth0'' container_ns True) host_world
     = [EnterConfigureL3 dict_dual ''eth0'' container_ns True,
        NetNS ''/proc/4242/ns/net'', IPDB container_ns, Interface ''eth0'',
        AddIp ''10.0.0.5'' 24 4,
        EnterEnableIpv6 container_ns,
        ConvertNetns (Some ''/proc/self/ns/net''), OpenFile (Some ''/proc/self/ns/net'') ''r'',
        SetNs (NsPath container_ns),
        ConvertNetns (Some ''/proc/sys/net/ipv6/conf/all/disable_ipv6''),
        OpenFile (Some ''/proc/sys/net/ipv6/conf/all/disable_ipv6'') ''w'',
        WriteFile (Some ''/proc/sys/net/ipv6/conf/all/disable_ipv6'') ''0'',
        SetNs (NsFd ''host''),
        AddIp ''fd00::5'' 64 6, IfaceCommit ''eth0'',
        RoutesAdd ''10.0.0.1'' (Dst ''10.1.0.0/16''),
        IpdbRelease]"
  by (simp add: run_simps model_defs example_defs dict_dual_def route_conflict_def)

section \<open>The steps of a connect call\<close>








section \<open>Claims\<close>

text \<open>
  C1, as amended. When no binding plugin is registered for the VIF's kind, a \<open>connect\<close> that
  got past the normalisation of \<open>netns\<close> stops at driver resolution: the only calls issued
  are the normalisation and the driver lookup, the VIF-plugging collaborator has not been
  invoked, and the error raised names the namespace and the unresolved kind.
\<close>

theorem connect_unresolved_driver:
  assumes "vif_type v \<notin> set (plugins cf)" and "convert_netns cf ns = Inr ns'"
  shows "fst (connect cf env v ii ifn ns g cid w) = Inl (NoMatches BINDING_NAMESPACE (vif_type v))
       \<and> events_of (connect cf env v ii ifn ns g cid) w =
           [ConvertNetns ns, DriverManager BINDING_NAMESPACE (vif_type v)]
       \<and> Plug v ii \<notin> set (events_of (connect cf env v ii ifn ns g cid) w)"
  using connect_unresolved_run [OF assms, of env ii ifn g cid w]
  by (simp add: events_of_def)

theorem connect_unresolved_driver_witness:
  "vif_type vif_unknown \<notin> set (plugins example_conf)
   \<and> convert_netns example_conf container_ns = Inr container_ns
   \<and> fst (connect example_conf quiet_env vif_unknown ''instance'' ''eth0'' container_ns True None host_world)
       = Inl (NoMatches BINDING_NAMESPACE ''VIFUnknown'')
   \<and> events_of (connect example_conf quiet_env vif_unknown ''instance'' ''eth0'' container_ns True None) host_world
       = [ConvertNetns container_ns, DriverManager BINDING_NAMESPACE ''VIFUnknown'']"
proof -
  have a: "vif_type vif_unknown \<notin> set (plugins example_conf)"
    by (simp add: vif_unknown_def example_conf_def)
  have b: "convert_netns example_conf container_ns = Inr container_ns"
    by (simp add: example_conf_def)
  show ?thesis
    using a b connect_unresolved_driver [OF a b, of quiet_env "''instance''" "''eth0''" True None host_world]
    by (simp add: vif_unknown_def)
qed

text \<open>
  C1 as stated fails: with no plugin registered for \<open>VIFUnknown\<close>, \<open>connect\<close> raises before
  the VIF-plugging collaborator is invoked.
\<close>

theorem connect_unresolved_driver_counterexample:
  "vif_type vif_unknown \<notin> set (plugins example_conf)
   \<and> Plug vif_unknown ''instance'' \<notin>
       set (trace (snd (connect example_conf quiet_env vif_unknown ''instance'' ''eth0''
                          container_ns True None host_world)))"
  by (simp add: connect_def bind_def convert_def get_binding_driver_def mark_def raise_def
      emit_def vif_unknown_def example_conf_def host_world_def)

text \<open>
  C6. When the VIF's physnet maps, through the two tables, to a driver name in the
  userspace-driver set, \<open>need_configure_l3\<close> answers \<open>False\<close> and no call of \<open>connect\<close>
  belongs to L3 configuration: \<open>configure_l3\<close> is not entered.
\<close>

theorem userspace_driver_skips_l3:
  assumes "physnet v = Some pn"
    and "sriov_physnet_resource_mappings cf pn = Some r"
    and "sriov_resource_driver_mappings cf r = Some d"
    and "d \<in> set (USERSPACE_DRIVERS cf)"
  shows "fst (need_configure_l3 cf v w) = Inr False
       \<and> list_all (\<lambda>e. \<not> is_l3_event e) (events_of (connect cf env v ii ifn ns g cid) w')"
  using need_userspace [OF assms] connect_userspace_no_l3 [OF assms]
  by simp

theorem userspace_driver_skips_l3_witness:
  "physnet vif_sriov = Some ''physnet1''
   \<and> sriov_physnet_resource_mappings example_conf ''physnet1'' = Some ''cx5_sriov''
   \<and> sriov_resource_driver_mappings example_conf ''cx5_sriov'' = Some ''vfio-pci''
   \<and> ''vfio-pci'' \<in> set (USERSPACE_DRIVERS example_conf)
   \<and> fst (need_configure_l3 example_conf vif_sriov host_world) = Inr False
   \<and> list_all (\<lambda>e. \<not> is_l3_event e)
         (events_of (connect example_conf quiet_env vif_sriov ''instance'' ''eth0''
                       container_ns True None) host_world)"
proof -
  have a: "physnet vif_sriov = Some ''physnet1''"
    by (simp add: vif_sriov_def)
  have b: "sriov_physnet_resource_mappings example_conf ''physnet1'' = Some ''cx5_sriov''"
    by (simp add: example_conf_def)
  have c: "sriov_resource_driver_mappings example_conf ''cx5_sriov'' = Some ''vfio-pci''"
    by (simp add: example_conf_def)
  have d: "''vfio-pci'' \<in> set (USERSPACE_DRIVERS example_conf)"
    by (simp add: example_conf_def)
  show ?thesis
    using a b c d userspace_driver_skips_l3 [OF a b c d,
        of host_world quiet_env "''instance''" "''eth0''" container_ns True None host_world]
    by simp
qed

text \<open>
  C4, as amended. Whenever the \<^verbatim>\<open>setns\<close> call of the \<^verbatim>\<open>finally\<close> clause does not itself
  raise, the process is, after \<open>configure_l3\<close>, in the namespace it was in before the call:
  whether or not IPv6 enablement was triggered, and whichever other call raised, the
  \<^verbatim>\<open>disable_ipv6\<close> write inside the target namespace included.
\<close>

theorem configure_l3_restores_namespace:
  assumes "restores env"
  shows "active_ns (snd (configure_l3 cf env vd ifn ns g w)) = active_ns w"
  using keeps_configure_l3 [OF assms] by (simp add: keeps_ns_def)

theorem configure_l3_restores_namespace_witness:
  "restores write_fails
   \<and> fst (configure_l3 example_conf write_fails dict_v6 ''eth0'' container_ns True host_world)
       = Inl (OSError 13)
   \<and> EnterEnableIpv6 container_ns \<in>
       set (events_of (configure_l3 example_conf write_fails dict_v6 ''eth0'' container_ns True) host_world)
   \<and> active_ns (snd (configure_l3 example_conf write_fails dict_v6 ''eth0'' container_ns True host_world))
       = active_ns host_world"
proof -
  have r: "restores write_fails"
    by (simp add: restores_def write_fails_def)
  have e: "fst (configure_l3 example_conf write_fails dict_v6 ''eth0'' container_ns True host_world)
             = Inl (OSError 13)"
    by (simp add: run_simps model_defs example_defs write_fails_def dict_v6_def)
  have t: "EnterEnableIpv6 container_ns \<in>
       set (events_of (configure_l3 example_conf write_fails dict_v6 ''eth0'' container_ns True) host_world)"
    by (simp add: run_simps model_defs example_defs write_fails_def dict_v6_def)
  show ?thesis
    using r e t configure_l3_restores_namespace [OF r] by simp
qed

text \<open>
  C4 as stated fails when the restoring \<^verbatim>\<open>setns\<close> raises: IPv6 enablement is triggered,
  the process has entered the container's namespace, and it is still there after the call.
\<close>

theorem configure_l3_restores_namespace_counterexample:
  "EnterEnableIpv6 container_ns \<in>
     set (events_of (configure_l3 example_conf restore_fails dict_v6 ''eth0'' container_ns True) host_world)
   \<and> active_ns host_world = ''host''
   \<and> active_ns (snd (configure_l3 example_conf restore_fails dict_v6 ''eth0'' container_ns True host_world))
       = ''/proc/4242/ns/net''"
  by (simp add: run_simps model_defs example_defs restore_fails_def dict_v6_def)

text \<open>
  C7. When the VIF has a physnet that is missing from the physnet table, or whose resource
  is missing from the driver table, \<open>need_configure_l3\<close> logs the missing key at level
  \<^verbatim>\<open>exception\<close> and raises the \<^verbatim>\<open>KeyError\<close> for that key; \<open>connect\<close> then ends with
  an error and none of its calls belongs to L3 configuration.
\<close>

theorem unmapped_physnet_aborts_connect:
  assumes "physnet v = Some pn"
    and "sriov_physnet_resource_mappings cf pn = None \<and> key = pn
         \<or> (\<exists>r. sriov_physnet_resource_mappings cf pn = Some r
                \<and> sriov_resource_driver_mappings cf r = None \<and> key = r)"
  shows "fst (need_configure_l3 cf v w) = Inl (KeyError key)
       \<and> (\<exists>msg. events_of (need_configure_l3 cf v) w =
                   [EnterNeedConfigureL3 v, Log Exception msg [key]])
       \<and> (\<exists>e. fst (connect cf env v ii ifn ns g cid w') = Inl e)
       \<and> list_all (\<lambda>e. \<not> is_l3_event e) (events_of (connect cf env v ii ifn ns g cid) w')"
proof -
  obtain msg where m: "need_configure_l3 cf v w =
      (Inl (KeyError key), w\<lparr>trace := trace w @ [EnterNeedConfigureL3 v, Log Exception msg [key]]\<rparr>)"
    using need_unmapped [OF assms] by blast
  have a: "fst (need_configure_l3 cf v w) = Inl (KeyError key)"
    using m by simp
  have b: "events_of (need_configure_l3 cf v) w = [EnterNeedConfigureL3 v, Log Exception msg [key]]"
    using m by (simp add: events_of_def)
  have "\<exists>e. fst (need_configure_l3 cf v w'') = Inl e" for w''
    using need_unmapped [OF assms, of w''] by auto
  then have c: "(\<exists>e. fst (connect cf env v ii ifn ns g cid w') = Inl e)
       \<and> list_all (\<lambda>e. \<not> is_l3_event e) (events_of (connect cf env v ii ifn ns g cid) w')"
    by (rule connect_fails_when_need_fails)
  show ?thesis using a b c by auto
qed

theorem unmapped_physnet_aborts_connect_witness:
  "physnet vif_sriov_unmapped = Some ''physnet2''
   \<and> sriov_physnet_resource_mappings example_conf ''physnet2'' = Some ''x710''
   \<and> sriov_resource_driver_mappings example_conf ''x710'' = None
   \<and> fst (need_configure_l3 example_conf vif_sriov_unmapped host_world) = Inl (KeyError ''x710'')
   \<and> fst (connect example_conf quiet_env vif_sriov_unmapped ''instance'' ''eth0'' container_ns True None host_world)
       = Inl (KeyError ''x710'')
   \<and> list_all (\<lambda>e. \<not> is_l3_event e)
       (events_of (connect example_conf quiet_env vif_sriov_unmapped ''instance'' ''eth0'' container_ns True None) host_world)"
proof -
  have a: "physnet vif_sriov_unmapped = Some ''physnet2''"
    by (simp add: vif_sriov_unmapped_def)
  have b: "sriov_physnet_resource_mappings example_conf ''physnet2'' = Some ''x710''"
    by (simp add: example_conf_def)
  have c: "sriov_resource_driver_mappings example_conf ''x710'' = None"
    by (simp add: example_conf_def)
  have d: "sriov_physnet_resource_mappings example_conf ''physnet2'' = None \<and> ''x710'' = ''physnet2''
         \<or> (\<exists>r. sriov_physnet_resource_mappings example_conf ''physnet2'' = Some r
                \<and> sriov_resource_driver_mappings example_conf r = None \<and> ''x710'' = r)"
    using b c by simp
  have e: "fst (connect example_conf quiet_env vif_sriov_unmapped ''instance'' ''eth0'' container_ns True None host_world)
       = Inl (KeyError ''x710'')"
    by (simp add: run_simps model_defs example_defs vif_sriov_unmapped_def)
  show ?thesis
    using a b c e unmapped_physnet_aborts_connect [OF a d,
        of host_world quiet_env "''instance''" "''eth0''" container_ns True None host_world]
    by simp
qed

text \<open>
  C9. \<open>disconnect\<close> resolves the driver, calls \<^verbatim>\<open>driver.disconnect\<close> and then the
  VIF-unplugging collaborator, in this order and stopping at the first call that raises;
  it issues no call of L3 configuration (no address, route, IPv6 flag or namespace switch)
  and leaves the process in the namespace it was in.
\<close>

theorem disconnect_sequence:
  "events_of (disconnect cf env v ii ifn ns cid) w \<noteq> []
   \<and> prefix (events_of (disconnect cf env v ii ifn ns cid) w) (disconnect_plan v ii ifn ns cid)
   \<and> (fst (disconnect cf env v ii ifn ns cid w) = Inr () \<longrightarrow>
        events_of (disconnect cf env v ii ifn ns cid) w = disconnect_plan v ii ifn ns cid)
   \<and> list_all (\<lambda>e. \<not> is_l3_event e) (events_of (disconnect cf env v ii ifn ns cid) w)
   \<and> active_ns (snd (disconnect cf env v ii ifn ns cid w)) = active_ns w"
proof -
  have 1: "events_of (disconnect cf env v ii ifn ns cid) w \<noteq> []"
    by (simp add: disconnect_events)
  have 2: "prefix (events_of (disconnect cf env v ii ifn ns cid) w) (disconnect_plan v ii ifn ns cid)"
    by (simp add: disconnect_events disconnect_plan_def split: prod.splits sum.splits)
  have 4: "list_all (\<lambda>e. \<not> is_l3_event e) (events_of (disconnect cf env v ii ifn ns cid) w)"
    by (simp add: disconnect_events split: prod.splits sum.splits)
  have 5: "active_ns (snd (disconnect cf env v ii ifn ns cid w)) = active_ns w"
    using keeps_disconnect by (simp add: keeps_ns_def)
  show ?thesis using 1 2 4 5 disconnect_success by blast
qed

theorem disconnect_sequence_witness:
  "fst (disconnect example_conf quiet_env vif_bridge ''instance'' ''eth0'' container_ns None host_world) = Inr ()
   \<and> events_of (disconnect example_conf quiet_env vif_bridge ''instance'' ''eth0'' container_ns None) host_world
       = [DriverManager BINDING_NAMESPACE ''VIFBridge'',
          DriverDisconnect ''VIFBridge'' vif_bridge ''eth0'' container_ns None,
          Unplug vif_bridge ''instance'']"
proof -
  have a: "fst (disconnect example_conf quiet_env vif_bridge ''instance'' ''eth0'' container_ns None host_world) = Inr ()"
    by (simp add: run_simps model_defs example_defs)
  show ?thesis
    using a disconnect_sequence [of example_conf quiet_env vif_bridge "''instance''" "''eth0''" container_ns None host_world]
    by (simp add: disconnect_plan_def vif_bridge_def)
qed

text \<open>
  C2, as amended. In a \<open>configure_l3\<close> call, IPv6 enablement is invoked once for every
  subnet whose CIDR is IPv6 that the first loop reaches: never more often than there are
  such subnets, exactly that often when the call succeeds, hence not at all when no subnet
  is IPv6; and every IPv6 address assignment comes after an invocation of the enablement.
\<close>

theorem ipv6_enablement_per_subnet:
  "length (filter is_enable (events_of (configure_l3 cf env vd ifn ns g) w))
     \<le> length (filter (\<lambda>s. version (cidr s) = 6) (subnets vd))
   \<and> (fst (configure_l3 cf env vd ifn ns g w) = Inr () \<longrightarrow>
        length (filter is_enable (events_of (configure_l3 cf env vd ifn ns g) w))
          = length (filter (\<lambda>s. version (cidr s) = 6) (subnets vd)))
   \<and> preceded is_enable is_v6_add (events_of (configure_l3 cf env vd ifn ns g) w)"
  using configure_l3_entered_le [of cf env vd ifn ns g w]
    configure_l3_entered_eq [of cf env vd ifn ns g w]
    configure_l3_preceded [of cf env vd ifn ns g w]
  by blast

theorem ipv6_enablement_per_subnet_witness:
  "fst (configure_l3 example_conf quiet_env dict_dual ''eth0'' container_ns True host_world) = Inr ()
   \<and> length (filter is_enable
        (events_of (configure_l3 example_conf quiet_env dict_dual ''eth0'' container_ns True) host_world)) = 1
   \<and> preceded is_enable is_v6_add
        (events_of (configure_l3 example_conf quiet_env dict_dual ''eth0'' container_ns True) host_world)"
proof -
  have a: "fst (configure_l3 example_conf quiet_env dict_dual ''eth0'' container_ns True host_world) = Inr ()"
    by (simp add: run_simps model_defs example_defs dict_dual_def)
  show ?thesis
    using a ipv6_enablement_per_subnet [of example_conf quiet_env dict_dual "''eth0''" container_ns True host_world]
    by (simp add: dict_dual_def subnet_v4_def subnet_v6_def)
qed

text \<open>
  C2 as stated fails: with two IPv6 subnets the enablement is invoked twice in one call.
\<close>

theorem ipv6_enablement_per_subnet_counterexample:
  "length (filter is_enable
     (events_of (configure_l3 example_conf quiet_env dict_two_v6 ''eth0'' container_ns True) host_world)) = 2"
  by (simp add: run_simps model_defs example_defs dict_two_v6_def)

text \<open>
  C10. In a \<open>configure_l3\<close> call every address assignment comes before every route
  installation; and when any route installation is attempted, the first loop has run to
  its end: the addresses assigned are those of all subnets, in order, and the interface
  transaction has been committed.
\<close>

theorem addresses_before_routes:
  "all_before is_add_ip is_route_add (events_of (configure_l3 cf env vd ifn ns g) w)
   \<and> (list_ex is_route_add (events_of (configure_l3 cf env vd ifn ns g) w) \<longrightarrow>
        filter is_add_ip (events_of (configure_l3 cf env vd ifn ns g) w) = address_events (subnets vd)
        \<and> IfaceCommit ifn \<in> set (events_of (configure_l3 cf env vd ifn ns g) w))"
  using configure_l3_all_before [of cf env vd ifn ns g w]
    configure_l3_addresses_complete [of cf env vd ifn ns g w]
  by blast

theorem addresses_before_routes_witness:
  "list_ex is_route_add
     (events_of (configure_l3 example_conf quiet_env dict_dual ''eth0'' container_ns True) host_world)
   \<and> filter is_add_ip
       (events_of (configure_l3 example_conf quiet_env dict_dual ''eth0'' container_ns True) host_world)
       = [AddIp ''10.0.0.5'' 24 4, AddIp ''fd00::5'' 64 6]
   \<and> all_before is_add_ip is_route_add
       (events_of (configure_l3 example_conf quiet_env dict_dual ''eth0'' container_ns True) host_world)"
proof -
  have a: "list_ex is_route_add
     (events_of (configure_l3 example_conf quiet_env dict_dual ''eth0'' container_ns True) host_world)"
    by (simp add: run_simps model_defs example_defs dict_dual_def)
  show ?thesis
    using a addresses_before_routes [of example_conf quiet_env dict_dual "''eth0''" container_ns True host_world]
    by (simp add: address_events_def dict_dual_def subnet_v4_def subnet_v6_def)
qed

text \<open>
  C3, as amended. A \<open>connect\<close> call attempts the installation of a default route at most
  once for each subnet of the VIF's snapshot that declares a gateway, and not at all when
  \<open>is_default_gateway\<close> is false; a \<open>configure_l3\<close> call that succeeds has attempted it
  exactly once for each such subnet.
\<close>

theorem default_route_attempts:
  "length (filter is_default_add (events_of (connect cf env v ii ifn ns g cid) w))
     \<le> (case osvif_vif_to_dict cf v of
          Inl e \<Rightarrow> 0
        | Inr vd \<Rightarrow> if g then length (filter (\<lambda>s. gateway s \<noteq> None) (subnets vd)) else 0)
   \<and> length (filter is_default_add (events_of (configure_l3 cf env vd' ifn ns' g) w'))
       \<le> (if g then length (filter (\<lambda>s. gateway s \<noteq> None) (subnets vd')) else 0)
   \<and> (fst (configure_l3 cf env vd' ifn ns' g w') = Inr () \<longrightarrow>
        length (filter is_default_add (events_of (configure_l3 cf env vd' ifn ns' g) w'))
          = (if g then length (filter (\<lambda>s. gateway s \<noteq> None) (subnets vd')) else 0))"
  using connect_defaults_le [of cf env v ii ifn ns g cid w]
    configure_l3_defaults_le [of cf env vd' ifn ns' g w']
    configure_l3_defaults_eq [of cf env vd' ifn ns' g w']
  by blast

theorem default_route_attempts_witness:
  "fst (configure_l3 example_conf quiet_env dict_dual ''eth0'' container_ns True host_world) = Inr ()
   \<and> length (filter is_default_add
        (events_of (configure_l3 example_conf quiet_env dict_dual ''eth0'' container_ns True) host_world)) = 2
   \<and> length (filter is_default_add
        (events_of (configure_l3 example_conf quiet_env dict_dual ''eth0'' container_ns False) host_world)) = 0"
proof -
  have a: "fst (configure_l3 example_conf quiet_env dict_dual ''eth0'' container_ns True host_world) = Inr ()"
    by (simp add: run_simps model_defs example_defs dict_dual_def)
  show ?thesis
    using a
      default_route_attempts [of example_conf quiet_env vif_bridge "''instance''" "''eth0''"
        container_ns True None host_world dict_dual container_ns host_world]
      default_route_attempts [of example_conf quiet_env vif_bridge "''instance''" "''eth0''"
        container_ns False None host_world dict_dual container_ns host_world]
    by (simp add: dict_dual_def subnet_v4_def subnet_v6_def)
qed

text \<open>
  C3 as stated fails: for a VIF whose network has two subnets with a gateway each, one
  \<open>connect\<close> call attempts the installation of a default route twice.
\<close>

theorem default_route_attempts_counterexample:
  "length (filter is_default_add
     (events_of (connect example_conf quiet_env vif_bridge ''instance'' ''eth0'' container_ns True None)
        host_world)) = 2"
  by (simp add: run_simps model_defs example_defs)

text \<open>
  C5. In a \<open>configure_l3\<close> call, take any route addition that the environment fails.
  When it is the addition of the default route and the error is a \<^verbatim>\<open>NetlinkError\<close> with
  code \<^verbatim>\<open>EEXIST\<close>, the next event is the debug log naming the gateway and the run goes on
  (the default-route step itself returns normally). In every other case, a default route
  failing otherwise or an explicit route failing with any error, that error is the result
  of the call and nothing follows the failed addition but the release of the IPDB handle.
\<close>

theorem route_addition_failures:
  assumes "i < length (events_of (configure_l3 cf env vd ifn ns g) w)"
    and "events_of (configure_l3 cf env vd ifn ns g) w ! i = RoutesAdd gw d"
    and "env (trace w @ take i (events_of (configure_l3 cf env vd ifn ns g) w)) (RoutesAdd gw d) = Some e"
  shows "(if tolerated d e
          then Suc i < length (events_of (configure_l3 cf env vd ifn ns g) w)
               \<and> (\<exists>msg. events_of (configure_l3 cf env vd ifn ns g) w ! Suc i = Log Debug msg [gw])
          else fst (configure_l3 cf env vd ifn ns g w) = Inl e
               \<and> events_of (configure_l3 cf env vd ifn ns g) w
                   = take (Suc i) (events_of (configure_l3 cf env vd ifn ns g) w) @ [IpdbRelease])
       \<and> (env (trace w') (RoutesAdd gw' Default) = Some (NetlinkError EEXIST) \<longrightarrow>
            fst (add_default_route env gw' w') = Inr ())"
  using configure_l3_route_failure [OF assms] add_default_route_swallows [of env w' gw']
  by blast

theorem route_addition_failures_witness:
  "events_of (configure_l3 example_conf default_exists dict_dual ''eth0'' container_ns True) host_world ! 16
     = RoutesAdd ''10.0.0.1'' Default
   \<and> tolerated Default (NetlinkError EEXIST)
   \<and> (\<exists>msg. events_of (configure_l3 example_conf default_exists dict_dual ''eth0'' container_ns True)
                host_world ! 17 = Log Debug msg [''10.0.0.1''])
   \<and> events_of (configure_l3 example_conf route_conflict dict_dual ''eth0'' container_ns True) host_world ! 15
       = RoutesAdd ''10.0.0.1'' (Dst ''10.1.0.0/16'')
   \<and> \<not> tolerated (Dst ''10.1.0.0/16'') (NetlinkError EEXIST)
   \<and> fst (configure_l3 example_conf route_conflict dict_dual ''eth0'' container_ns True host_world)
       = Inl (NetlinkError EEXIST)"
proof -
  let ?xs = "events_of (configure_l3 example_conf default_exists dict_dual ''eth0'' container_ns True) host_world"
  let ?ys = "events_of (configure_l3 example_conf route_conflict dict_dual ''eth0'' container_ns True) host_world"
  have a1: "16 < length ?xs"
    by (simp add: run_default_exists)
  have a2: "?xs ! 16 = RoutesAdd ''10.0.0.1'' Default"
    by (simp add: run_default_exists)
  have a3: "default_exists (trace host_world @ take 16 ?xs) (RoutesAdd ''10.0.0.1'' Default)
              = Some (NetlinkError EEXIST)"
    by (simp add: default_exists_def EEXIST_def)
  have b1: "15 < length ?ys"
    by (simp add: run_route_conflict)
  have b2: "?ys ! 15 = RoutesAdd ''10.0.0.1'' (Dst ''10.1.0.0/16'')"
    by (simp add: run_route_conflict)
  have b3: "route_conflict (trace host_world @ take 15 ?ys) (RoutesAdd ''10.0.0.1'' (Dst ''10.1.0.0/16''))
              = Some (NetlinkError EEXIST)"
    by (simp add: route_conflict_def EEXIST_def)
  have t: "tolerated Default (NetlinkError EEXIST)"
    and n: "\<not> tolerated (Dst ''10.1.0.0/16'') (NetlinkError EEXIST)"
    by (simp_all add: tolerated_def)
  show ?thesis
    using a2 b2 t n
      route_addition_failures [OF a1 a2 a3, of host_world "''10.0.0.1''"]
      route_addition_failures [OF b1 b2 b3, of host_world "''10.0.0.1''"]
    by simp
qed



end
